theory Spec2Isabelle
  imports Main "HOL-Library.Sublist" "HOL-Library.Char_ord" "HOL-Library.List_Lexorder"
begin


section \<open>Parsed documents\<close>

text \<open>
  The structural parser hands the program a tree of maps, sequences, strings and nulls.
  A map keeps its entries in document order, so it is an association list; the parser
  never produces the same key twice in one map. A string is a list of characters, one
  per code point; the embedding covers the code points below 256.
\<close>

datatype xml = XNone | XStr string | XList "xml list" | XDict "(string \<times> xml) list"

text \<open>Python truthiness: null, the empty string, the empty list and the empty map are false.\<close>

fun truthy :: "xml \<Rightarrow> bool" where
  "truthy XNone = False"
| "truthy (XStr s) = (s \<noteq> [])"
| "truthy (XList xs) = (xs \<noteq> [])"
| "truthy (XDict kvs) = (kvs \<noteq> [])"

text \<open>\<open>a or b\<close> yields \<open>a\<close> when it is true and \<open>b\<close> otherwise.\<close>

definition py_or :: "xml \<Rightarrow> xml \<Rightarrow> xml" where
  "py_or a b = (if truthy a then a else b)"

fun is_dict :: "xml \<Rightarrow> bool" where
  "is_dict (XDict kvs) = True"
| "is_dict v = False"

fun is_list :: "xml \<Rightarrow> bool" where
  "is_list (XList xs) = True"
| "is_list v = False"

text \<open>\<open>key in d\<close> and \<open>d[key]\<close> for a map \<open>d\<close>.\<close>

definition has_key :: "(string \<times> xml) list \<Rightarrow> string \<Rightarrow> bool" where
  "has_key kvs key = (map_of kvs key \<noteq> None)"

definition item :: "(string \<times> xml) list \<Rightarrow> string \<Rightarrow> xml" where
  "item kvs key = (case map_of kvs key of Some v \<Rightarrow> v | None \<Rightarrow> XNone)"

text \<open>\<open>safe_dict_get(d, key, default)\<close>: the default when \<open>d\<close> is no map or lacks the key.\<close>

fun safe_dict_get :: "xml \<Rightarrow> string \<Rightarrow> xml \<Rightarrow> xml" where
  "safe_dict_get (XDict kvs) key dflt =
     (case map_of kvs key of Some v \<Rightarrow> v | None \<Rightarrow> dflt)"
| "safe_dict_get d key dflt = dflt"

section \<open>The generic structural search\<close>

text \<open>
  \<open>safe_get\<close> first looks the key up in the map it is given and returns the stored value
  at once. Only when that fails does it run the breadth-first loop over a queue. The
  loop remembers the maps and sequences it has expanded by their identity; in a tree
  the identity of a node is its position, the path of child indices from the root.
\<close>

type_synonym node_id = "nat list"

text \<open>What a map that holds the key adds to the results: the text content of a wrapper
  map, nothing for a non-empty sequence, the value itself otherwise.\<close>

fun match_results :: "xml \<Rightarrow> xml list" where
  "match_results (XDict vd) =
     (if has_key vd ''#text'' then [item vd ''#text'']
      else if has_key vd ''text'' then [item vd ''text'']
      else [XDict vd])"
| "match_results (XList vs) = (if vs \<noteq> [] then [] else [XList vs])"
| "match_results v = [v]"

text \<open>What it adds to the queue: every element of a non-empty sequence stored under the key.\<close>

fun match_queue :: "node_id \<Rightarrow> xml \<Rightarrow> (node_id \<times> xml) list" where
  "match_queue p (XList vs) = map (\<lambda>j. (p @ [j], vs ! j)) [0..<length vs]"
| "match_queue p v = []"

text \<open>The children of a map or a sequence that go to the queue: all that are not null.\<close>

definition children :: "node_id \<Rightarrow> xml list \<Rightarrow> (node_id \<times> xml) list" where
  "children p vs = filter (\<lambda>(q, v). v \<noteq> XNone) (map (\<lambda>j. (p @ [j], vs ! j)) [0..<length vs])"

text \<open>The position of a key's entry in a map.\<close>

fun key_index :: "(string \<times> xml) list \<Rightarrow> string \<Rightarrow> nat" where
  "key_index [] key = 0"
| "key_index ((k, v) # kvs) key = (if k = key then 0 else Suc (key_index kvs key))"

fun weight :: "xml \<Rightarrow> nat" where
  "weight XNone = 1"
| "weight (XStr s) = 1"
| "weight (XList xs) = Suc (sum_list (map weight xs))"
| "weight (XDict kvs) = Suc (sum_list (map (\<lambda>kv. 2 * weight (snd kv)) kvs))"

definition queue_weight :: "(node_id \<times> xml) list \<Rightarrow> nat" where
  "queue_weight queue = sum_list (map (\<lambda>e. weight (snd e)) queue)"

function safe_get_loop ::
  "string \<Rightarrow> (node_id \<times> xml) list \<Rightarrow> node_id list \<Rightarrow> xml list \<Rightarrow> xml list" where
  "safe_get_loop key [] visited results = results"
| "safe_get_loop key ((p, XNone) # queue) visited results =
     safe_get_loop key queue visited results"
| "safe_get_loop key ((p, XStr s) # queue) visited results =
     safe_get_loop key queue visited results"
| "safe_get_loop key ((p, XList xs) # queue) visited results =
     (if p \<in> set visited then safe_get_loop key queue visited results
      else safe_get_loop key (queue @ children p xs) (p # visited) results)"
| "safe_get_loop key ((p, XDict kvs) # queue) visited results =
     (if p \<in> set visited then safe_get_loop key queue visited results
      else if has_key kvs key
        then safe_get_loop key
               (queue @ match_queue (p @ [key_index kvs key]) (item kvs key)
                      @ children p (map snd kvs))
               (p # visited) (results @ match_results (item kvs key))
        else safe_get_loop key (queue @ children p (map snd kvs)) (p # visited) results)"
  by pat_completeness auto

lemma queue_weight_Nil: "queue_weight [] = 0"
  by (simp add: queue_weight_def)

lemma queue_weight_Cons: "queue_weight (e # q) = weight (snd e) + queue_weight q"
  by (simp add: queue_weight_def)

lemma queue_weight_append: "queue_weight (q1 @ q2) = queue_weight q1 + queue_weight q2"
  by (simp add: queue_weight_def)

lemma sum_list_filter_le: "sum_list (map f (filter P xs)) \<le> sum_list (map (f::'a \<Rightarrow> nat) xs)"
  by (induction xs) auto

lemma queue_weight_indexed:
  "queue_weight (map (\<lambda>j. (p @ [j], vs ! j)) [0..<length vs]) = sum_list (map weight vs)"
proof -
  have "map (\<lambda>e. weight (snd e)) (map (\<lambda>j. (p @ [j], vs ! j)) [0..<length vs])
        = map weight (map (\<lambda>j. vs ! j) [0..<length vs])"
    by simp
  then show ?thesis
    by (simp only: queue_weight_def map_nth)
qed

lemma queue_weight_children: "queue_weight (children p vs) \<le> sum_list (map weight vs)"
proof -
  have "queue_weight (children p vs)
        \<le> queue_weight (map (\<lambda>j. (p @ [j], vs ! j)) [0..<length vs])"
    unfolding children_def queue_weight_def by (rule sum_list_filter_le)
  then show ?thesis
    by (simp only: queue_weight_indexed)
qed

lemma queue_weight_match: "queue_weight (match_queue p v) < weight v"
  by (cases v) (simp_all add: queue_weight_indexed queue_weight_Nil)

lemma weight_item_le:
  "has_key kvs key \<Longrightarrow> weight (item kvs key) \<le> sum_list (map weight (map snd kvs))"
proof (induction kvs)
  case Nil
  then show ?case by (simp add: has_key_def)
next
  case (Cons kv kvs)
  obtain k v where kv: "kv = (k, v)" by (cases kv)
  show ?case
  proof (cases "k = key")
    case True
    then show ?thesis by (simp add: kv item_def)
  next
    case False
    with Cons.prems have "has_key kvs key" by (simp add: kv has_key_def)
    then have "weight (item kvs key) \<le> sum_list (map weight (map snd kvs))"
      by (rule Cons.IH)
    moreover from False have "item (kv # kvs) key = item kvs key"
      by (simp add: kv item_def)
    ultimately show ?thesis by simp
  qed
qed

lemma weight_dict: "weight (XDict kvs) = Suc (2 * sum_list (map weight (map snd kvs)))"
  by (induction kvs) auto

lemma safe_get_loop_dict_decreases:
  assumes "has_key kvs key"
  shows "queue_weight (queue @ match_queue q (item kvs key) @ children p (map snd kvs))
         < queue_weight ((p, XDict kvs) # queue)"
proof -
  have "weight (item kvs key) \<le> sum_list (map weight (map snd kvs))"
    using assms by (rule weight_item_le)
  moreover have "queue_weight (match_queue q (item kvs key)) < weight (item kvs key)"
    by (rule queue_weight_match)
  moreover have "queue_weight (children p (map snd kvs)) \<le> sum_list (map weight (map snd kvs))"
    by (rule queue_weight_children)
  ultimately show ?thesis
    by (simp only: queue_weight_append queue_weight_Cons weight_dict snd_conv)
qed

lemma safe_get_loop_children_decreases:
  "queue_weight (queue @ children p (map snd kvs)) < queue_weight ((p, XDict kvs) # queue)"
proof -
  have "queue_weight (children p (map snd kvs)) \<le> sum_list (map weight (map snd kvs))"
    by (rule queue_weight_children)
  then show ?thesis
    by (simp only: queue_weight_append queue_weight_Cons weight_dict snd_conv)
qed

lemma safe_get_loop_list_decreases:
  "queue_weight (queue @ children p xs) < queue_weight ((p, XList xs) # queue)"
proof -
  have "queue_weight (children p xs) \<le> sum_list (map weight xs)"
    by (rule queue_weight_children)
  then show ?thesis
    by (simp only: queue_weight_append queue_weight_Cons weight.simps snd_conv)
qed

termination safe_get_loop
  by (relation "measure (\<lambda>(key, queue, visited, results). queue_weight queue)")
     (simp_all add: safe_get_loop_dict_decreases safe_get_loop_children_decreases
        safe_get_loop_list_decreases, simp_all add: queue_weight_Cons)

text \<open>The value returned for the collected results: the only one, the list of them, or null.\<close>

fun collapse :: "xml list \<Rightarrow> xml" where
  "collapse [] = XNone"
| "collapse [r] = r"
| "collapse results = XList results"

fun safe_get :: "xml \<Rightarrow> string \<Rightarrow> xml" where
  "safe_get XNone key = XNone"
| "safe_get (XDict kvs) key =
     (if has_key kvs key then item kvs key
      else collapse (safe_get_loop key [([], XDict kvs)] [] []))"
| "safe_get obj key = collapse (safe_get_loop key [([], obj)] [] [])"

section \<open>Text extraction\<close>

text \<open>
  \<open>str.strip()\<close> removes the white space at both ends. Below code point 256 the white-space
  characters are the controls 9 to 13 and 28 to 31, the space, 0x85 and 0xA0.
\<close>

definition is_space :: "char \<Rightarrow> bool" where
  "is_space c = (of_char c \<in> {9, 10, 11, 12, 13, 28, 29, 30, 31, 32, 133, 160 :: nat})"

definition strip :: "string \<Rightarrow> string" where
  "strip s = rev (dropWhile is_space (rev (dropWhile is_space s)))"

text \<open>\<open>sep.join(parts)\<close>.\<close>

fun join :: "string \<Rightarrow> string list \<Rightarrow> string" where
  "join sep [] = []"
| "join sep [x] = x"
| "join sep (x # y # ys) = x @ sep @ join sep (y # ys)"

definition newline :: string where
  "newline = [CHR 0x0A]"

text \<open>The texts a loop keeps: those that are neither null nor empty.\<close>

fun kept_texts :: "string option list \<Rightarrow> string list" where
  "kept_texts [] = []"
| "kept_texts (None # ts) = kept_texts ts"
| "kept_texts (Some t # ts) = (if t \<noteq> [] then t # kept_texts ts else kept_texts ts)"

definition joined_or_none :: "string \<Rightarrow> string list \<Rightarrow> string option" where
  "joined_or_none sep texts = (if texts \<noteq> [] then Some (join sep texts) else None)"

text \<open>Attribute keys start with an at sign.\<close>

fun is_attribute :: "string \<Rightarrow> bool" where
  "is_attribute (c # cs) = (c = CHR ''@'')"
| "is_attribute [] = False"

lemma size_item_less: "has_key kvs key \<Longrightarrow> size (item kvs key) < size (XDict kvs)"
proof (induction kvs)
  case Nil
  then show ?case by (simp add: has_key_def)
next
  case (Cons kv kvs)
  obtain k v where kv: "kv = (k, v)" by (cases kv)
  show ?case
  proof (cases "k = key")
    case True
    then show ?thesis by (simp add: kv item_def)
  next
    case False
    with Cons.prems have "has_key kvs key" by (simp add: kv has_key_def)
    then have "size (item kvs key) < size (XDict kvs)" by (rule Cons.IH)
    moreover from False have "item (kv # kvs) key = item kvs key"
      by (simp add: kv item_def)
    ultimately show ?thesis by simp
  qed
qed

lemma size_value_less: "(k, v) \<in> set kvs \<Longrightarrow> size v < size (XDict kvs)"
  by (induction kvs) auto

lemma size_element_less: "x \<in> set xs \<Longrightarrow> size x < size (XList xs)"
  by (induction xs) auto

function extract_text :: "xml \<Rightarrow> string option" where
  "extract_text XNone = None"
| "extract_text (XStr s) = Some (strip s)"
| "extract_text (XDict kvs) =
     (if has_key kvs ''#text'' \<and> truthy (item kvs ''#text'') then extract_text (item kvs ''#text'')
      else if has_key kvs ''text'' \<and> truthy (item kvs ''text'') then extract_text (item kvs ''text'')
      else joined_or_none newline
             (kept_texts (map (\<lambda>kv. extract_text (snd kv))
                              (filter (\<lambda>kv. \<not> is_attribute (fst kv)) kvs))))"
| "extract_text (XList xs) = joined_or_none newline (kept_texts (map extract_text xs))"
  by pat_completeness auto
termination
proof (relation "measure size")
  fix kvs :: "(string \<times> xml) list" and kv
  assume "kv \<in> set (filter (\<lambda>kv. \<not> is_attribute (fst kv)) kvs)"
  then have "(fst kv, snd kv) \<in> set kvs" by simp
  then have "size (snd kv) < size (XDict kvs)" by (rule size_value_less)
  then show "(snd kv, XDict kvs) \<in> measure size" by simp
qed (auto dest: size_item_less size_element_less)

subsection \<open>Positions in a tree\<close>

text \<open>The node at a position, and what the search finds at it: the contribution of a map
  that holds the key, nothing at any other node.\<close>

fun child :: "xml \<Rightarrow> nat \<Rightarrow> xml option" where
  "child (XList xs) j = (if j < length xs then Some (xs ! j) else None)"
| "child (XDict kvs) j = (if j < length kvs then Some (snd (kvs ! j)) else None)"
| "child v j = None"

fun node_at :: "xml \<Rightarrow> node_id \<Rightarrow> xml option" where
  "node_at v [] = Some v"
| "node_at v (j # p) = (case child v j of None \<Rightarrow> None | Some c \<Rightarrow> node_at c p)"

definition is_container :: "xml \<Rightarrow> bool" where
  "is_container v = (is_dict v \<or> is_list v)"

definition container_at :: "xml \<Rightarrow> node_id \<Rightarrow> bool" where
  "container_at obj p = (case node_at obj p of Some v \<Rightarrow> is_container v | None \<Rightarrow> False)"

definition found_at :: "xml \<Rightarrow> string \<Rightarrow> node_id \<Rightarrow> xml list" where
  "found_at obj key p =
     (case node_at obj p of
        Some (XDict kvs) \<Rightarrow> if has_key kvs key then match_results (item kvs key) else []
      | _ \<Rightarrow> [])"


text \<open>The state of the loop is consistent with the tree it searches.\<close>

definition search_inv :: "xml \<Rightarrow> string \<Rightarrow> (node_id \<times> xml) list \<Rightarrow> node_id list \<Rightarrow> xml list \<Rightarrow> bool" where
  "search_inv obj key queue visited results =
     ((\<forall>(q, v) \<in> set queue. node_at obj q = Some v) \<and>
      (\<forall>p \<in> set visited. container_at obj p) \<and>
      distinct visited \<and>
      results = concat (map (found_at obj key) (rev visited)) \<and>
      (\<forall>p v. node_at obj p = Some v \<and> is_container v \<and> (p = [] \<or> butlast p \<in> set visited)
         \<longrightarrow> p \<in> set visited \<or> (p, v) \<in> set queue))"


text \<open>The first test of \<open>safe_get\<close>: the value it is given is a map that holds the key.\<close>

fun holds_key :: "xml \<Rightarrow> string \<Rightarrow> bool" where
  "holds_key (XDict kvs) key = has_key kvs key"
| "holds_key obj key = False"


subsection \<open>The contract of the search, in the words of its description\<close>

text \<open>The value a map at a position stores under the key, if the node there is a map that
  has the key.\<close>

definition stored_at :: "xml \<Rightarrow> string \<Rightarrow> node_id \<Rightarrow> xml option" where
  "stored_at obj key p =
     (case node_at obj p of Some (XDict kvs) \<Rightarrow> map_of kvs key | _ \<Rightarrow> None)"

text \<open>The text content of a wrapper map, \<open>#text\<close> before \<open>text\<close>; any other value stands for
  itself.\<close>

fun text_content :: "xml \<Rightarrow> xml" where
  "text_content (XDict vd) =
     (case map_of vd ''#text'' of
        Some t \<Rightarrow> t
      | None \<Rightarrow> (case map_of vd ''text'' of Some t \<Rightarrow> t | None \<Rightarrow> XDict vd))"
| "text_content v = v"

fun filled_list :: "xml \<Rightarrow> bool" where
  "filled_list (XList (v # vs)) = True"
| "filled_list v = False"

text \<open>No map of the tree stores a non-empty sequence under the key.\<close>

fun list_free :: "string \<Rightarrow> xml \<Rightarrow> bool" where
  "list_free key (XDict kvs) =
     ((case map_of kvs key of Some v \<Rightarrow> \<not> filled_list v | None \<Rightarrow> True) \<and>
      (\<forall>kv \<in> set kvs. list_free key (snd kv)))"
| "list_free key (XList xs) = (\<forall>v \<in> set xs. list_free key v)"
| "list_free key v = True"

text \<open>A tree with two matches below the top, one of them a wrapper map.\<close>

definition wrapped_twice :: xml where
  "wrapped_twice =
     XDict [(''r'', XDict [(''a'', XDict [(''@id'', XStr ''1''), (''#text'', XStr ''x'')])]),
            (''s'', XDict [(''a'', XStr ''y'')])]"


section \<open>Claim extraction\<close>

text \<open>\<open>str(i)\<close> for a natural number: its decimal digits.\<close>

function str_nat :: "nat \<Rightarrow> string" where
  "str_nat n =
     (if n < 10 then [''0123456789'' ! n]
      else str_nat (n div 10) @ [''0123456789'' ! (n mod 10)])"
  by pat_completeness auto
termination
  by (relation "measure id") auto

declare str_nat.simps [simp del]

text \<open>
  \<open>str(v)\<close> and the rendering of \<open>v\<close> inside an f-string. A string renders as itself and
  null as the word None; the rendering of a map or a sequence is the interpreter's
  \<open>repr\<close>, which is an argument of the functions that need it.
\<close>

fun py_str :: "(xml \<Rightarrow> string) \<Rightarrow> xml \<Rightarrow> string" where
  "py_str repr (XStr s) = s"
| "py_str repr XNone = ''None''"
| "py_str repr v = repr v"

definition para_mark :: string where
  "para_mark = [CHR 0xB6]"

fun text_or_empty :: "string option \<Rightarrow> string" where
  "text_or_empty None = []"
| "text_or_empty (Some t) = t"

text \<open>
  One claim of the primary format: its number is the \<open>@num\<close> attribute, or the given
  default when the attribute is absent; its text is that of \<open>ClaimText\<close> when present,
  of the whole claim otherwise. A claim without text is dropped.
\<close>

definition business_claim :: "(xml \<Rightarrow> string) \<Rightarrow> (string \<times> xml) list \<Rightarrow> string \<Rightarrow> string list" where
  "business_claim repr claim dflt =
     (let claim_num = safe_dict_get (XDict claim) ''@num'' (XStr dflt);
          claim_text = (if has_key claim ''ClaimText'' then extract_text (item claim ''ClaimText'')
                        else extract_text (XDict claim))
      in if text_or_empty claim_text \<noteq> []
         then [py_str repr claim_num @ ''. '' @ text_or_empty claim_text] else [])"

text \<open>\<open>for i, claim in enumerate(claim_list, 1)\<close>: elements that are no maps are skipped,
  but they count for the index.\<close>

fun business_claims_loop :: "(xml \<Rightarrow> string) \<Rightarrow> nat \<Rightarrow> xml list \<Rightarrow> string list" where
  "business_claims_loop repr i [] = []"
| "business_claims_loop repr i (XDict claim # rest) =
     business_claim repr claim (str_nat i) @ business_claims_loop repr (Suc i) rest"
| "business_claims_loop repr i (other # rest) = business_claims_loop repr (Suc i) rest"

text \<open>One claim of the CN format. The source computes the claim number here as well and
  then appends the text alone.\<close>

definition cn_claim :: "(string \<times> xml) list \<Rightarrow> string \<Rightarrow> string list" where
  "cn_claim claim dflt =
     (let claim_num = safe_dict_get (XDict claim) ''@num'' (XStr dflt);
          claim_text = (if has_key claim ''claim-text'' then extract_text (item claim ''claim-text'')
                        else extract_text (XDict claim))
      in if text_or_empty claim_text \<noteq> [] then [text_or_empty claim_text] else [])"

fun cn_claims_loop :: "nat \<Rightarrow> xml list \<Rightarrow> string list" where
  "cn_claims_loop i [] = []"
| "cn_claims_loop i (XDict claim # rest) = cn_claim claim (str_nat i) @ cn_claims_loop (Suc i) rest"
| "cn_claims_loop i (other # rest) = cn_claims_loop (Suc i) rest"

text \<open>The claims found on the primary path \<open>Claims/Claim\<close>.\<close>

definition business_claims :: "(xml \<Rightarrow> string) \<Rightarrow> xml \<Rightarrow> string list" where
  "business_claims repr root =
     (let claims_section = (case root of
                              XDict r \<Rightarrow> if has_key r ''Claims'' then item r ''Claims'' else XNone
                            | _ \<Rightarrow> XNone)
      in if truthy claims_section
         then (let claim_list = safe_get claims_section ''Claim''
               in if truthy claim_list
                  then (case claim_list of
                          XList cl \<Rightarrow> business_claims_loop repr 1 cl
                        | XDict claim \<Rightarrow> business_claim repr claim ''1''
                        | _ \<Rightarrow> [])
                  else [])
         else [])"

text \<open>The claims found on the CN path \<open>application-body/claims/claim\<close>.\<close>

definition cn_claims :: "xml \<Rightarrow> string list" where
  "cn_claims root =
     (case root of
        XDict r \<Rightarrow>
          if has_key r ''application-body'' \<and> is_dict (item r ''application-body'')
          then (let claims_section = safe_dict_get (item r ''application-body'') ''claims'' XNone
                in if truthy claims_section \<and> is_dict claims_section
                   then (let claim_list = safe_get claims_section ''claim''
                         in if truthy claim_list
                            then (case claim_list of
                                    XList cl \<Rightarrow> cn_claims_loop 1 cl
                                  | XDict claim \<Rightarrow> cn_claim claim ''1''
                                  | _ \<Rightarrow> [])
                            else [])
                   else [])
          else []
      | _ \<Rightarrow> [])"

text \<open>The last resort: any node named \<open>claim-text\<close> or \<open>ClaimText\<close>, rendered as text.\<close>

definition deep_claims :: "xml \<Rightarrow> string option" where
  "deep_claims root =
     (let found = py_or (safe_get root ''claim-text'') (safe_get root ''ClaimText'')
      in if truthy found then extract_text found else None)"

definition extract_claims :: "(xml \<Rightarrow> string) \<Rightarrow> xml \<Rightarrow> string option" where
  "extract_claims repr root =
     (if business_claims repr root \<noteq> [] then Some (join para_mark (business_claims repr root))
      else if cn_claims root \<noteq> [] then Some (join para_mark (cn_claims root))
      else deep_claims root)"

section \<open>Numbers, dates and the document kind\<close>

datatype py_error = TypeError | AttributeError | KeyError | StopIteration | LibraryError

text \<open>
  \<open>clean_application_number\<close>: a false value (null, the empty string) is returned
  unchanged; anything else is rendered as a string and cut at its first full stop.
\<close>

definition clean_application_number :: "(xml \<Rightarrow> string) \<Rightarrow> xml \<Rightarrow> xml" where
  "clean_application_number repr app_number =
     (if \<not> truthy app_number then app_number
      else (let app_number_str = py_str repr app_number
            in if CHR ''.'' \<in> set app_number_str
               then XStr (takeWhile (\<lambda>c. c \<noteq> CHR ''.'') app_number_str)
               else XStr app_number_str))"

text \<open>
  \<open>str.upper()\<close>. Below code point 256 the letters a to z and 0xE0 to 0xFE (without the
  division sign 0xF7) move down by 32 and the sharp s becomes SS. The upper-case forms
  of 0xB5 and 0xFF lie above 255; the two characters are left as they are, which no
  comparison of the program can observe, since all of them are with ASCII letters.
\<close>

definition upper_char :: "char \<Rightarrow> string" where
  "upper_char c =
     (let n = (of_char c :: nat)
      in if (97 \<le> n \<and> n \<le> 122) \<or> (224 \<le> n \<and> n \<le> 254 \<and> n \<noteq> 247) then [char_of (n - 32)]
         else if n = 223 then ''SS''
         else [c])"

definition upper :: "string \<Rightarrow> string" where
  "upper s = concat (map upper_char s)"

text \<open>\<open>str.lower()\<close>: the letters A to Z and 0xC0 to 0xDE (without the multiplication sign
  0xD7) move up by 32.\<close>

definition lower_char :: "char \<Rightarrow> char" where
  "lower_char c =
     (let n = (of_char c :: nat)
      in if (65 \<le> n \<and> n \<le> 90) \<or> (192 \<le> n \<and> n \<le> 222 \<and> n \<noteq> 215) then char_of (n + 32)
         else c)"

definition lower :: "string \<Rightarrow> string" where
  "lower s = map lower_char s"

text \<open>
  \<open>kind and kind.upper() in letters\<close>. A false kind fails the test; a true kind that is
  no string has no method \<open>upper\<close>, and the call raises.
\<close>

fun kind_in :: "xml \<Rightarrow> string list \<Rightarrow> py_error + bool" where
  "kind_in (XStr s) letters = Inr (s \<noteq> [] \<and> upper s \<in> set letters)"
| "kind_in kind letters = (if truthy kind then Inl AttributeError else Inr False)"

text \<open>
  \<open>calculate_date_diff\<close>: the months from the application date to the publication date.
  \<open>datetime.strptime(s, "%Y%m%d")\<close> is a library routine; the argument \<open>strptime\<close> gives
  the year and the month it reads from \<open>s\<close>, or nothing when it rejects \<open>s\<close>.
\<close>

definition calculate_date_diff ::
  "(xml \<Rightarrow> string) \<Rightarrow> (string \<Rightarrow> (int \<times> int) option) \<Rightarrow> xml \<Rightarrow> xml \<Rightarrow> int option" where
  "calculate_date_diff repr strptime app_date pub_date =
     (if \<not> truthy app_date \<or> \<not> truthy pub_date then None
      else (case strptime (py_str repr app_date) of
              None \<Rightarrow> None
            | Some (app_year, app_month) \<Rightarrow>
                (case strptime (py_str repr pub_date) of
                   None \<Rightarrow> None
                 | Some (pub_year, pub_month) \<Rightarrow>
                     Some ((pub_year - app_year) * 12 + (pub_month - app_month)))))"

text \<open>\<open>x if x else None\<close>.\<close>

definition or_none :: "xml \<Rightarrow> xml" where
  "or_none x = (if truthy x then x else XNone)"

record numbers =
  clean_app :: xml
  publication_number :: xml
  publication_date :: xml
  open_number :: xml
  open_date :: xml
  register_number :: xml
  register_date :: xml

definition format_numbers ::
  "(xml \<Rightarrow> string) \<Rightarrow> (string \<Rightarrow> (int \<times> int) option) \<Rightarrow>
   xml \<Rightarrow> xml \<Rightarrow> xml \<Rightarrow> xml \<Rightarrow> xml \<Rightarrow> py_error + numbers" where
  "format_numbers repr strptime app_number pub_number pub_date kind app_date =
     (let clean = clean_application_number repr app_number;
          init = \<lparr>clean_app = clean, publication_number = XNone, publication_date = XNone,
                  open_number = XNone, open_date = XNone,
                  register_number = XNone, register_date = XNone\<rparr>
      in case kind_in kind [''B'', ''C''] of
           Inl e \<Rightarrow> Inl e
         | Inr True \<Rightarrow>
             (let registered = init\<lparr>publication_number := or_none pub_number,
                                    publication_date := pub_date,
                                    register_number := or_none clean,
                                    register_date := pub_date\<rparr>
              in case calculate_date_diff repr strptime app_date pub_date of
                   None \<Rightarrow> Inr registered
                 | Some months_diff_for_BC \<Rightarrow>
                     if months_diff_for_BC > 18
                     then Inr (registered\<lparr>open_number := pub_number, open_date := XNone\<rparr>)
                     else Inr registered)
         | Inr False \<Rightarrow>
             (case kind_in kind [''U'', ''Y''] of
                Inl e \<Rightarrow> Inl e
              | Inr True \<Rightarrow>
                  Inr (init\<lparr>open_number := XNone, open_date := XNone,
                            publication_number := or_none pub_number,
                            publication_date := pub_date,
                            register_number := or_none clean,
                            register_date := pub_date\<rparr>)
              | Inr False \<Rightarrow>
                  (case kind_in kind [''A''] of
                     Inl e \<Rightarrow> Inl e
                   | Inr True \<Rightarrow> Inr (init\<lparr>open_number := or_none pub_number, open_date := pub_date\<rparr>)
                   | Inr False \<Rightarrow> Inr init)))"

section \<open>The canonical record\<close>

text \<open>A record is the map that \<open>create_parsed_result\<close> builds, with its twenty keys in
  the order of the source.\<close>

type_synonym parsed = "(string \<times> xml) list"

fun opt_text :: "string option \<Rightarrow> xml" where
  "opt_text None = XNone"
| "opt_text (Some t) = XStr t"

definition create_parsed_result ::
  "xml \<Rightarrow> xml \<Rightarrow> xml \<Rightarrow> xml \<Rightarrow> xml \<Rightarrow> xml \<Rightarrow> xml \<Rightarrow> xml \<Rightarrow> xml \<Rightarrow> xml \<Rightarrow> xml \<Rightarrow> xml \<Rightarrow> xml \<Rightarrow> xml \<Rightarrow> xml \<Rightarrow>
   xml \<Rightarrow> xml \<Rightarrow> xml \<Rightarrow> xml \<Rightarrow> parsed" where
  "create_parsed_result main_cpc kind open_no open_dt register_no register_dt
       pub_number pub_date app_number app_date applicant_name inventor_name
       agent_name title summary drawing_section embodiment_section full_description_text claims =
     [(''MainCPC'', main_cpc),
      (''Kind'', kind),
      (''OpenNumber'', open_no),
      (''OpenDate'', open_dt),
      (''RegisterNumber'', register_no),
      (''RegisterDate'', register_dt),
      (''PublicationNumber'', pub_number),
      (''PublicationDate'', pub_date),
      (''ApplicationNumber'', app_number),
      (''ApplicationDate'', app_date),
      (''ApplicantName'', applicant_name),
      (''InventorName'', inventor_name),
      (''AgentName'', agent_name),
      (''Title'', title),
      (''Summary'', summary),
      (''SummaryOfInvention'', XNone),
      (''BriefDescriptionOfDrawings'', drawing_section),
      (''DescriptionOfEmbodiments'', embodiment_section),
      (''Description'',
         if \<not> truthy drawing_section \<or> \<not> truthy embodiment_section
         then full_description_text else XNone),
      (''Claims'', claims)]"

section \<open>The description and its sections\<close>

text \<open>\<open>sub in s\<close> for two strings.\<close>

fun contains :: "string \<Rightarrow> string \<Rightarrow> bool" where
  "contains sub [] = (sub = [])"
| "contains sub (c # cs) = (prefix sub (c # cs) \<or> contains sub cs)"

text \<open>
  \<open>key in obj\<close> and \<open>obj[key]\<close> where the program does not check the type of \<open>obj\<close>:
  a map is asked for the key, a string for the substring, a sequence for the element;
  null is not iterable. Only a map can be indexed by a string.
\<close>

fun py_in :: "string \<Rightarrow> xml \<Rightarrow> py_error + bool" where
  "py_in key (XDict kvs) = Inr (has_key kvs key)"
| "py_in key (XStr s) = Inr (contains key s)"
| "py_in key (XList xs) = Inr (XStr key \<in> set xs)"
| "py_in key XNone = Inl TypeError"

fun py_getitem :: "xml \<Rightarrow> string \<Rightarrow> py_error + xml" where
  "py_getitem (XDict kvs) key = (if has_key kvs key then Inr (item kvs key) else Inl KeyError)"
| "py_getitem obj key = Inl TypeError"

text \<open>\<open>if key in obj: return obj[key]\<close>, and the continuation otherwise.\<close>

definition lookup_else :: "xml \<Rightarrow> string \<Rightarrow> (py_error + xml) \<Rightarrow> py_error + xml" where
  "lookup_else obj key otherwise =
     (case py_in key obj of
        Inl e \<Rightarrow> Inl e
      | Inr True \<Rightarrow> py_getitem obj key
      | Inr False \<Rightarrow> otherwise)"

definition find_description_in_document :: "xml \<Rightarrow> py_error + xml" where
  "find_description_in_document root =
     (let app_body = safe_dict_get root ''application-body'' (XDict [])
      in if is_dict app_body \<and> py_in ''description'' app_body = Inr True
         then py_getitem app_body ''description''
         else lookup_else root ''description''
               (lookup_else root ''cn-description''
                 (lookup_else root ''Description'' (Inr XNone))))"

definition extract_description_paragraphs :: "xml \<Rightarrow> xml list" where
  "extract_description_paragraphs description =
     (case description of
        XDict d \<Rightarrow>
          if has_key d ''p'' \<and> is_list (item d ''p'')
            then (case item d ''p'' of XList ps \<Rightarrow> ps | _ \<Rightarrow> [])
          else if has_key d ''p'' then [item d ''p'']
          else if has_key d ''Paragraphs'' \<and> is_list (item d ''Paragraphs'')
            then (case item d ''Paragraphs'' of XList ps \<Rightarrow> ps | _ \<Rightarrow> [])
          else if has_key d ''Paragraphs'' then [item d ''Paragraphs'']
          else []
      | _ \<Rightarrow> [])"

text \<open>
  \<open>is_table_like\<close>: more than 40 percent of the characters are digits or arithmetic
  punctuation. The source compares the floating-point quotient \<open>count / len\<close> with 0.4;
  for texts of fewer than 10^15 characters that is the comparison \<open>5 * count > 2 * len\<close>
  of integers. Below code point 256 the digits of \<open>str.isdigit\<close> are 0 to 9 and the
  superscripts 0xB2, 0xB3 and 0xB9.
\<close>

definition is_digit :: "char \<Rightarrow> bool" where
  "is_digit c = (let n = (of_char c :: nat) in (48 \<le> n \<and> n \<le> 57) \<or> n = 178 \<or> n = 179 \<or> n = 185)"

definition is_table_like :: "string \<Rightarrow> bool" where
  "is_table_like text =
     (text \<noteq> [] \<and>
      5 * length (filter (\<lambda>c. is_digit c \<or> c \<in> set ''-+*/,.()%'') text) > 2 * max (length text) 1)"

text \<open>\<open>str.splitlines()\<close>: below code point 256 a line ends at a line feed, a carriage
  return (with the line feed that follows it), 0x0B, 0x0C, 0x1C, 0x1D, 0x1E or 0x85.\<close>

definition is_linebreak :: "char \<Rightarrow> bool" where
  "is_linebreak c = (of_char c \<in> {10, 11, 12, 13, 28, 29, 30, 133 :: nat})"

fun splitlines_from :: "string \<Rightarrow> string \<Rightarrow> string list" where
  "splitlines_from cur [] = (if cur = [] then [] else [cur])"
| "splitlines_from cur [c] = (if is_linebreak c then [cur] else [cur @ [c]])"
| "splitlines_from cur (c # d # cs) =
     (if c = CHR 0x0D \<and> d = CHR 0x0A then cur # splitlines_from [] cs
      else if is_linebreak c then cur # splitlines_from [] (d # cs)
      else splitlines_from (cur @ [c]) (d # cs))"

definition splitlines :: "string \<Rightarrow> string list" where
  "splitlines s = splitlines_from [] s"

definition blank_line :: string where
  "blank_line = [CHR 0x0A, CHR 0x0A]"

definition scrub_tables :: "string option \<Rightarrow> string option" where
  "scrub_tables raw_text =
     (if text_or_empty raw_text = [] then None
      else (let clean_lines = filter (\<lambda>line. strip line \<noteq> [] \<and> \<not> is_table_like line)
                                     (splitlines (text_or_empty raw_text));
                result = strip (join blank_line clean_lines)
            in if result \<noteq> [] then Some result else None))"

text \<open>
  \<open>extract_description_sections\<close> looks for heading paragraphs. Its two tables of heading
  phrases hold Korean text, whose characters lie outside the character type of this
  embedding; the tables \<open>DRAWING_MARKERS\<close> and \<open>EMBODIMENT_MARKERS\<close> are therefore arguments.
  The loop keeps the indices of the last headings seen, \<open>-1\<close> standing for none.
\<close>

record marker_state =
  drawings_start_idx :: int
  embodiment_start_idx :: int
  brief_description_of_drawings :: "string option"

definition has_marker :: "string list \<Rightarrow> string \<Rightarrow> bool" where
  "has_marker markers text =
     ((\<exists>marker \<in> set markers. contains (lower marker) (lower text)) \<and> length text < 100)"

definition texts_between :: "xml list \<Rightarrow> nat \<Rightarrow> nat \<Rightarrow> string list" where
  "texts_between paragraphs from to =
     kept_texts (map (\<lambda>j. extract_text (paragraphs ! j)) [from..<to])"

definition sections_step ::
  "string list \<Rightarrow> string list \<Rightarrow> xml list \<Rightarrow> nat \<Rightarrow> marker_state \<Rightarrow> marker_state" where
  "sections_step DRAWING_MARKERS EMBODIMENT_MARKERS paragraphs i st =
     (let text = text_or_empty (extract_text (paragraphs ! i))
      in if text = [] then st
         else if has_marker DRAWING_MARKERS text then st\<lparr>drawings_start_idx := int i\<rparr>
         else if has_marker EMBODIMENT_MARKERS text
           then (let drawing_paragraphs =
                       (if drawings_start_idx st \<noteq> -1 \<and> drawings_start_idx st < int i
                        then texts_between paragraphs (nat (drawings_start_idx st + 1)) i else [])
                 in (if drawing_paragraphs \<noteq> []
                     then st\<lparr>brief_description_of_drawings := Some (join blank_line drawing_paragraphs)\<rparr>
                     else st)\<lparr>embodiment_start_idx := int i\<rparr>)
         else st)"

definition extract_description_sections ::
  "string list \<Rightarrow> string list \<Rightarrow> xml list \<Rightarrow> string option \<times> string option \<times> string option" where
  "extract_description_sections DRAWING_MARKERS EMBODIMENT_MARKERS paragraphs =
     (let full_description_text = joined_or_none blank_line (kept_texts (map extract_text paragraphs));
          st = fold (sections_step DRAWING_MARKERS EMBODIMENT_MARKERS paragraphs)
                    [0..<length paragraphs]
                    \<lparr>drawings_start_idx = -1, embodiment_start_idx = -1,
                     brief_description_of_drawings = None\<rparr>;
          description_of_embodiments =
            (if embodiment_start_idx st \<noteq> -1
             then joined_or_none blank_line
                    (texts_between paragraphs (nat (embodiment_start_idx st + 1)) (length paragraphs))
             else None)
      in (brief_description_of_drawings st, description_of_embodiments, full_description_text))"

text \<open>The value under the first of the given keys that the map holds, null when it holds none.\<close>

fun first_present :: "string list \<Rightarrow> (string \<times> xml) list \<Rightarrow> xml" where
  "first_present [] d = XNone"
| "first_present (key # keys) d = (if has_key d key then item d key else first_present keys d)"

text \<open>A section taken from a tag: the text of the tag's value without its table-like lines,
  when the value is true.\<close>

definition tag_section :: "xml \<Rightarrow> string option" where
  "tag_section v = (if truthy v then scrub_tables (extract_text v) else None)"

text \<open>\<open>if not section and marker_section: section = marker_section\<close>.\<close>

definition choose_section :: "string option \<Rightarrow> string option \<Rightarrow> string option" where
  "choose_section section marker_section =
     (if text_or_empty section = [] \<and> text_or_empty marker_section \<noteq> []
      then marker_section else section)"

definition extract_structured_description ::
  "string list \<Rightarrow> string list \<Rightarrow> xml \<Rightarrow> xml list \<Rightarrow>
   string option \<times> string option \<times> string option" where
  "extract_structured_description DRAWING_MARKERS EMBODIMENT_MARKERS description all_paragraphs =
     (let drawings_desc = (case description of
              XDict d \<Rightarrow> first_present [''drawings-description'', ''description-of-drawings'',
                                           ''DrawingsDescription'', ''drawings''] d
            | _ \<Rightarrow> XNone);
          embodiments = (case description of
              XDict d \<Rightarrow> first_present [''detailed-description'', ''invention-description'',
                                           ''embodiments'', ''mode-for-invention'', ''InventionMode''] d
            | _ \<Rightarrow> XNone);
          tag_drawing = tag_section drawings_desc;
          tag_embodiment = tag_section embodiments;
          markers = (if (text_or_empty tag_drawing = [] \<or> text_or_empty tag_embodiment = [])
                        \<and> all_paragraphs \<noteq> []
                     then extract_description_sections DRAWING_MARKERS EMBODIMENT_MARKERS all_paragraphs
                     else (None, None, None));
          drawing_section = choose_section tag_drawing (fst markers);
          embodiment_section = choose_section tag_embodiment (fst (snd markers));
          full_description_text = (if is_dict description then extract_text description else None)
      in (drawing_section, embodiment_section, full_description_text))"

definition get_abstract_text :: "xml \<Rightarrow> string option" where
  "get_abstract_text abstract =
     (if abstract = XNone then None
      else (let paragraphs = (if is_dict abstract
                              then py_or (safe_dict_get abstract ''Paragraphs'' XNone)
                                         (safe_dict_get abstract ''p'' XNone)
                              else XNone)
            in if truthy paragraphs then extract_text paragraphs else extract_text abstract))"

section \<open>The variant parsers\<close>

text \<open>
  What the parsers take from outside the modelled code: the interpreter's \<open>repr\<close>, the
  library's date parser, the two tables of heading phrases, the clock and
  \<open>os.path.basename\<close>; and the extraction of the classification code and of the names of
  applicant, inventor and agent, which clean their texts with regular expressions and on
  which no property stated here depends. Each of these extractions yields a value or raises.
\<close>

record env =
  py_repr :: "xml \<Rightarrow> string"
  py_strptime :: "string \<Rightarrow> (int \<times> int) option"
  drawing_markers :: "string list"
  embodiment_markers :: "string list"
  cn_main_cpc :: "xml \<Rightarrow> py_error + xml"
  cn_applicant_name :: "xml \<Rightarrow> py_error + xml"
  cn_inventor_name :: "xml \<Rightarrow> py_error + xml"
  cn_agent_name :: "xml \<Rightarrow> py_error + xml"
  extract_cpc_info :: "xml \<Rightarrow> xml \<Rightarrow> py_error + xml"
  extract_applicant_info :: "xml \<Rightarrow> py_error + xml"
  extract_inventor_info :: "xml \<Rightarrow> py_error + xml"
  extract_agent_info :: "xml \<Rightarrow> py_error + xml"
  converted_date :: string
  basename :: "string \<Rightarrow> string"

text \<open>Sequencing of steps that may raise.\<close>

definition and_then :: "'e + 'a \<Rightarrow> ('a \<Rightarrow> 'e + 'b) \<Rightarrow> 'e + 'b" where
  "and_then m f = (case m of Inl e \<Rightarrow> Inl e | Inr x \<Rightarrow> f x)"

text \<open>\<open>x if isinstance(x, dict) else {}\<close>.\<close>

definition dict_or_empty :: "xml \<Rightarrow> xml" where
  "dict_or_empty x = (if is_dict x then x else XDict [])"

text \<open>The description part shared by the three parsers: the sections and the full text
  of a description node.\<close>

definition description_fields :: "env \<Rightarrow> xml \<Rightarrow> string option \<times> string option \<times> string option" where
  "description_fields e description =
     extract_structured_description (drawing_markers e) (embodiment_markers e) description
       (extract_description_paragraphs description)"

definition parse_cn_patent :: "env \<Rightarrow> xml \<Rightarrow> py_error + parsed" where
  "parse_cn_patent e root =
     (let biblio = safe_dict_get root ''cn-bibliographic-data'' (XDict []);
          parties = safe_dict_get biblio ''cn-parties'' (XDict []);
          pub_ref_container = safe_dict_get biblio ''cn-publication-reference'' (XDict []);
          pub_ref = dict_or_empty (py_or (safe_get pub_ref_container ''document-id'') (XDict []));
          app_ref_container = safe_dict_get biblio ''application-reference'' (XDict []);
          app_ref = dict_or_empty (py_or (safe_get app_ref_container ''document-id'') (XDict []));
          doc_number = safe_dict_get pub_ref ''doc-number'' XNone;
          app_number = safe_dict_get app_ref ''doc-number'' XNone;
          pub_date = safe_dict_get pub_ref ''date'' XNone;
          app_date = safe_dict_get app_ref ''date'' XNone;
          kind = safe_dict_get pub_ref ''kind'' XNone
      in and_then (format_numbers (py_repr e) (py_strptime e) app_number doc_number pub_date kind app_date)
          (\<lambda>n. and_then (cn_main_cpc e biblio)
          (\<lambda>main_cpc. and_then (cn_applicant_name e parties)
          (\<lambda>applicant_name. and_then (cn_inventor_name e parties)
          (\<lambda>inventor_name. and_then (cn_agent_name e parties)
          (\<lambda>agent_name.
             (let title0 = safe_dict_get biblio ''invention-title'' XNone;
                  title = (if is_dict title0
                           then py_or (safe_dict_get title0 ''#text'' XNone)
                                      (safe_dict_get title0 ''text'' XNone)
                           else title0);
                  abstract = safe_dict_get biblio ''abstract'' XNone;
                  summary = get_abstract_text abstract;
                  claims = extract_claims (py_repr e) root
              in and_then (find_description_in_document root)
                  (\<lambda>description.
                     (let (drawing_section, embodiment_section, full_description_text) =
                            description_fields e description
                      in Inr (create_parsed_result main_cpc kind (open_number n) (open_date n)
                                (register_number n) (register_date n)
                                (publication_number n) (publication_date n) (clean_app n) app_date
                                applicant_name inventor_name agent_name title (opt_text summary)
                                (opt_text drawing_section) (opt_text embodiment_section)
                                (opt_text full_description_text) (opt_text claims)))))))))))"

text \<open>The first map of a sequence whose \<open>@dataFormat\<close> is \<open>standard\<close>, the empty map when
  there is none.\<close>

definition is_standard :: "xml \<Rightarrow> bool" where
  "is_standard ref = (is_dict ref \<and> safe_dict_get ref ''@dataFormat'' XNone = XStr ''standard'')"

fun first_standard :: "xml list \<Rightarrow> xml" where
  "first_standard [] = XDict []"
| "first_standard (ref # refs) = (if is_standard ref then ref else first_standard refs)"

definition extract_publication_info :: "xml \<Rightarrow> xml \<Rightarrow> xml \<times> xml" where
  "extract_publication_info root biblio =
     (let pub_refs = safe_get biblio ''PublicationReference'';
          pub_info = (case pub_refs of
                        XList refs \<Rightarrow> first_standard refs
                      | XDict d \<Rightarrow> XDict d
                      | _ \<Rightarrow> XDict []);
          pub_doc = (if is_standard pub_info
                     then py_or (safe_get pub_info ''DocumentID'') (XDict [])
                     else (case safe_get pub_info ''DocumentID'' of
                             XList docs \<Rightarrow> first_standard docs
                           | _ \<Rightarrow> XDict []))
      in (pub_info, dict_or_empty pub_doc))"

text \<open>The first loop of \<open>extract_application_info\<close>: it stops at the first standard
  reference whose document id is a map and takes the number and the date that are true.\<close>

fun application_refs_loop :: "xml list \<Rightarrow> xml \<times> xml" where
  "application_refs_loop [] = (XNone, XNone)"
| "application_refs_loop (app_ref # app_refs) =
     (if is_standard app_ref \<and> is_dict (safe_get app_ref ''DocumentID'')
      then (or_none (safe_dict_get (safe_get app_ref ''DocumentID'') ''DocNumber'' XNone),
            or_none (safe_dict_get (safe_get app_ref ''DocumentID'') ''Date'' XNone))
      else application_refs_loop app_refs)"

text \<open>Fill in what is still missing from a document id.\<close>

definition fill_from :: "xml \<Rightarrow> xml \<times> xml \<Rightarrow> xml \<times> xml" where
  "fill_from doc nd =
     (if \<not> truthy (fst nd) then safe_dict_get doc ''DocNumber'' XNone else fst nd,
      if \<not> truthy (snd nd) then safe_dict_get doc ''Date'' XNone else snd nd)"

definition extract_application_info :: "xml \<Rightarrow> xml \<times> xml" where
  "extract_application_info biblio =
     (let app_refs = safe_get biblio ''ApplicationReference'';
          first = (case app_refs of XList refs \<Rightarrow> application_refs_loop refs | _ \<Rightarrow> (XNone, XNone))
      in if \<not> truthy (fst first) \<or> \<not> truthy (snd first)
         then (let app_info = py_or (safe_get biblio ''ApplicationReference'') (XDict [])
               in if is_dict app_info
                  then (if is_standard app_info
                        then (let app_doc = py_or (safe_get app_info ''DocumentID'') (XDict [])
                              in if is_dict app_doc then fill_from app_doc first else first)
                        else (case safe_get app_info ''DocumentID'' of
                                XList docs \<Rightarrow>
                                  (if \<exists>doc \<in> set docs. is_standard doc
                                   then fill_from (first_standard docs) first else first)
                              | _ \<Rightarrow> first))
                  else first)
         else first)"

definition parse_business :: "env \<Rightarrow> xml \<Rightarrow> py_error + parsed" where
  "parse_business e root =
     (let biblio = safe_dict_get root ''BibliographicData'' (XDict []);
          (pub_info, pub_doc) = extract_publication_info root biblio;
          pub_no0 = safe_dict_get pub_doc ''DocNumber'' XNone;
          pub_dt0 = safe_dict_get pub_doc ''Date'' XNone;
          pub_no = (if \<not> truthy pub_no0
                    then py_or (safe_dict_get pub_info ''DocNumber'' XNone)
                               (safe_dict_get root ''@docNumber'' XNone)
                    else pub_no0);
          pub_dt = (if \<not> truthy pub_dt0 then safe_dict_get pub_info ''Date'' XNone else pub_dt0);
          (application_number, application_date) = extract_application_info biblio
      in and_then (extract_cpc_info e root biblio)
          (\<lambda>main_cpc. and_then (extract_applicant_info e biblio)
          (\<lambda>applicant_name. and_then (extract_inventor_info e biblio)
          (\<lambda>inventor_name. and_then (extract_agent_info e biblio)
          (\<lambda>agent_name.
             (let title = extract_text (safe_get biblio ''InventionTitle'');
                  abstract = py_or (safe_get root ''Abstract'') (safe_get biblio ''Abstract'');
                  summary = get_abstract_text abstract;
                  claims = extract_claims (py_repr e) root
              in and_then (find_description_in_document root)
                  (\<lambda>description.
                     (let (drawing_section, embodiment_section, full_description_text) =
                            description_fields e description;
                          kind = py_or (safe_dict_get pub_doc ''Kind'' XNone)
                                       (safe_dict_get root ''@kind'' XNone)
                      in and_then (format_numbers (py_repr e) (py_strptime e)
                                     application_number pub_no pub_dt kind application_date)
                          (\<lambda>n.
                             (let register_dt =
                                    (if kind_in kind [''B'', ''C''] = Inr True
                                        \<and> \<not> truthy (register_date n) \<and> truthy pub_dt
                                     then pub_dt else register_date n)
                              in Inr (create_parsed_result main_cpc kind (open_number n) (open_date n)
                                        (register_number n) register_dt
                                        (publication_number n) (publication_date n) (clean_app n)
                                        application_date
                                        applicant_name inventor_name agent_name
                                        (opt_text title) (opt_text summary)
                                        (opt_text drawing_section) (opt_text embodiment_section)
                                        (opt_text full_description_text) (opt_text claims))))))))))))"

text \<open>The fallback parser needs the path \<open>application-body/description\<close>; without it the
  structure is unknown and the result is null. With it, the record is built from the
  description node found there.\<close>

definition fallback_record :: "env \<Rightarrow> xml \<Rightarrow> xml \<Rightarrow> py_error + parsed option" where
  "fallback_record e root description =
     (let claims = extract_claims (py_repr e) root;
          title = extract_text (safe_dict_get root ''invention-title'' XNone);
          abstract = safe_get root ''abstract'';
          summary = get_abstract_text abstract;
          (drawing_section, embodiment_section, full_description_text) =
             description_fields e description;
          app_number = safe_get root ''@applicationNumber'';
          app_date = safe_get root ''@applicationDate'';
          kind = py_or (safe_get root ''@kind'') (safe_get root ''kind'')
      in and_then (format_numbers (py_repr e) (py_strptime e) app_number XNone XNone kind app_date)
          (\<lambda>n. Inr (Some (create_parsed_result XNone kind (open_number n) (open_date n)
                   (register_number n) (register_date n)
                   (publication_number n) (publication_date n) (clean_app n) app_date
                   XNone XNone XNone (opt_text title) (opt_text summary)
                   (opt_text drawing_section) (opt_text embodiment_section)
                   (opt_text full_description_text) (opt_text claims)))))"

definition process_fallback_xml :: "env \<Rightarrow> xml \<Rightarrow> py_error + parsed option" where
  "process_fallback_xml e root =
     and_then (py_in ''application-body'' root)
       (\<lambda>has_body.
          if \<not> has_body then Inr None
          else and_then (py_getitem root ''application-body'')
            (\<lambda>body. and_then (py_in ''description'' body)
            (\<lambda>has_description.
               if \<not> has_description then Inr None
               else and_then (py_getitem body ''description'') (fallback_record e root))))"

section \<open>Processing one file\<close>

text \<open>\<open>k.split(":")[-1]\<close>: what follows the last colon of a key.\<close>

definition last_segment :: "string \<Rightarrow> string" where
  "last_segment k = rev (takeWhile (\<lambda>c. c \<noteq> CHR '':'') (rev k))"

text \<open>\<open>d[k] = v\<close>: a key that is present keeps its place and takes the new value, a new key
  goes to the end.\<close>

fun dict_set :: "(string \<times> xml) list \<Rightarrow> string \<Rightarrow> xml \<Rightarrow> (string \<times> xml) list" where
  "dict_set [] k v = [(k, v)]"
| "dict_set ((k', v') # kvs) k v = (if k' = k then (k, v) # kvs else (k', v') # dict_set kvs k v)"

fun strip_prefix :: "xml \<Rightarrow> xml" where
  "strip_prefix (XDict kvs) =
     XDict (fold (\<lambda>kv d. dict_set d (fst kv) (snd kv))
                 (map (\<lambda>kv. (last_segment (fst kv), strip_prefix (snd kv))) kvs) [])"
| "strip_prefix (XList xs) = XList (map strip_prefix xs)"
| "strip_prefix obj = obj"

text \<open>
  What reading and parsing a file gives: no text in any of the encodings tried, a text
  that the structural parser rejects, or the map of the document with its single root key.
\<close>

datatype source = Unreadable | Malformed | Document "(string \<times> xml) list"

datatype failure = EncodingUnrecognized | UnknownStructure | ParseException py_error

record missing =
  full_file_path :: string
  missing_fields :: "string list"
  contextual_issues :: "string list option"

text \<open>The five values a worker returns for a file.\<close>

record result =
  file_path :: string
  parsed_data :: "parsed option"
  error :: "failure option"
  extraction_status :: "(string \<times> bool) list"
  missing_details :: "missing option"

definition failed :: "string \<Rightarrow> failure \<Rightarrow> result" where
  "failed path f = \<lparr>file_path = path, parsed_data = None, error = Some f,
                     extraction_status = [], missing_details = None\<rparr>"

text \<open>\<open>parsed.get(key)\<close>.\<close>

definition field :: "parsed \<Rightarrow> string \<Rightarrow> xml" where
  "field parsed_rec key = (case map_of parsed_rec key of Some v \<Rightarrow> v | None \<Rightarrow> XNone)"

text \<open>A field counts as extracted when its value is neither null nor the empty string.\<close>

definition status_of :: "parsed \<Rightarrow> (string \<times> bool) list" where
  "status_of parsed_rec =
     map (\<lambda>kv. (fst kv, snd kv \<noteq> XNone \<and> snd kv \<noteq> XStr []))
         (filter (\<lambda>kv. fst kv \<noteq> ''meta'') parsed_rec)"

definition detected_missing_fields :: "(string \<times> bool) list \<Rightarrow> string list" where
  "detected_missing_fields status = map fst (filter (\<lambda>fe. \<not> snd fe) status)"

definition contextual_issues_of :: "parsed \<Rightarrow> string list \<Rightarrow> string list" where
  "contextual_issues_of parsed_rec missing_list =
     (if (\<not> truthy (field parsed_rec ''BriefDescriptionOfDrawings'')
            \<or> \<not> truthy (field parsed_rec ''DescriptionOfEmbodiments''))
         \<and> ''Description'' \<in> set missing_list
      then [''Description_missing_when_drawings_or_embodiments_absent''] else [])
     @ (if field parsed_rec ''Kind'' = XStr ''A''
        then (let missing_A_fields =
                    (if ''OpenNumber'' \<in> set missing_list then [''OpenNumber''] else [])
                    @ (if ''OpenDate'' \<in> set missing_list then [''OpenDate''] else [])
              in if missing_A_fields \<noteq> []
                 then [''Kind_A_missing_'' @ join ''_and_'' missing_A_fields] else [])
        else [])"

definition missing_details_of :: "string \<Rightarrow> parsed \<Rightarrow> (string \<times> bool) list \<Rightarrow> missing option" where
  "missing_details_of path parsed_rec status =
     (let missing_list = detected_missing_fields status
      in if missing_list \<noteq> []
         then (let current_contextual_issues = contextual_issues_of parsed_rec missing_list
               in Some \<lparr>full_file_path = path, missing_fields = missing_list,
                        contextual_issues = (if current_contextual_issues \<noteq> []
                                             then Some current_contextual_issues else None)\<rparr>)
         else None)"

text \<open>The result for a record that a parser returned: the record gets its \<open>meta\<close> block,
  then the presence map and the note of missing fields are derived from it.\<close>

definition succeeded :: "env \<Rightarrow> string \<Rightarrow> parsed \<Rightarrow> result" where
  "succeeded e path parsed0 =
     (let parsed_rec = parsed0 @ [(''meta'', XDict [(''convertedDate'', XStr (converted_date e)),
                                                    (''originalFileName'', XStr (basename e path))])];
          status = status_of parsed_rec
      in \<lparr>file_path = path, parsed_data = Some parsed_rec, error = None,
           extraction_status = status,
           missing_details = missing_details_of path parsed_rec status\<rparr>)"

text \<open>The dispatch on the root key. An exception anywhere makes the file a failure.\<close>

definition dispatch :: "env \<Rightarrow> string \<Rightarrow> xml \<Rightarrow> py_error + parsed option" where
  "dispatch e root_key root =
     (if prefix ''cn-patent-document'' (lower root_key)
        then and_then (parse_cn_patent e root) (\<lambda>p. Inr (Some p))
      else if suffix ''patentdocumentandrelated'' (lower root_key)
        then and_then (parse_business e root) (\<lambda>p. Inr (Some p))
      else process_fallback_xml e root)"

definition process_xml_file :: "env \<Rightarrow> string \<Rightarrow> source \<Rightarrow> result" where
  "process_xml_file e path src =
     (case src of
        Unreadable \<Rightarrow> failed path EncodingUnrecognized
      | Malformed \<Rightarrow> failed path (ParseException LibraryError)
      | Document parsed_doc \<Rightarrow>
          (case strip_prefix (XDict parsed_doc) of
             XDict ((root_key, root) # others) \<Rightarrow>
               (case dispatch e root_key root of
                  Inl exn \<Rightarrow> failed path (ParseException exn)
                | Inr None \<Rightarrow> failed path UnknownStructure
                | Inr (Some parsed_rec) \<Rightarrow>
                    if parsed_rec = [] then failed path UnknownStructure
                    else succeeded e path parsed_rec)
           | _ \<Rightarrow> failed path (ParseException StopIteration)))"

section \<open>Statistics\<close>

text \<open>
  A statistics accumulator: the number of items, the success count of every field (a
  \<open>defaultdict(int)\<close>, whose keys appear in the order of their first increment), the
  counters for documents of kind A and the counters for documents that lack a
  description section. The source keeps one set of these variables for the year and one
  for the current chunk.
\<close>

record acc =
  items_count :: nat
  field_success_counts :: "(string \<times> nat) list"
  total_A_items :: nat
  OpenNumber_success :: nat
  OpenDate_success :: nat
  total_partial_missing_items :: nat
  Description_success_when_partial_missing :: nat

definition empty_acc :: acc where
  "empty_acc = \<lparr>items_count = 0, field_success_counts = [], total_A_items = 0,
                 OpenNumber_success = 0, OpenDate_success = 0,
                 total_partial_missing_items = 0, Description_success_when_partial_missing = 0\<rparr>"

text \<open>\<open>counts[field] += 1\<close> and the reading \<open>counts[field]\<close>, zero for a field never counted.\<close>

fun increment :: "string \<Rightarrow> (string \<times> nat) list \<Rightarrow> (string \<times> nat) list" where
  "increment f [] = [(f, 1)]"
| "increment f ((k, n) # counts) = (if k = f then (k, Suc n) # counts else (k, n) # increment f counts)"

definition count_of :: "(string \<times> nat) list \<Rightarrow> string \<Rightarrow> nat" where
  "count_of counts f = (case map_of counts f of Some n \<Rightarrow> n | None \<Rightarrow> 0)"

fun count_fields :: "(string \<times> bool) list \<Rightarrow> (string \<times> nat) list \<Rightarrow> (string \<times> nat) list" where
  "count_fields [] counts = counts"
| "count_fields ((f, extracted) # status) counts =
     count_fields status (if extracted then increment f counts else counts)"

text \<open>\<open>extraction_status.get(key, False)\<close>.\<close>

definition status_get :: "(string \<times> bool) list \<Rightarrow> string \<Rightarrow> bool" where
  "status_get status key = (case map_of status key of Some b \<Rightarrow> b | None \<Rightarrow> False)"

text \<open>The update of an accumulator for one record. The source has this block twice, once
  for the year and once for the chunk.\<close>

definition count_item :: "parsed \<Rightarrow> (string \<times> bool) list \<Rightarrow> acc \<Rightarrow> acc" where
  "count_item parsed_rec status a =
     (let is_A = (field parsed_rec ''Kind'' = XStr ''A'');
          partial = (\<not> truthy (field parsed_rec ''BriefDescriptionOfDrawings'')
                       \<or> \<not> truthy (field parsed_rec ''DescriptionOfEmbodiments''))
      in \<lparr>items_count = Suc (items_count a),
           field_success_counts = count_fields status (field_success_counts a),
           total_A_items = total_A_items a + (if is_A then 1 else 0),
           OpenNumber_success = OpenNumber_success a
              + (if is_A \<and> status_get status ''OpenNumber'' then 1 else 0),
           OpenDate_success = OpenDate_success a
              + (if is_A \<and> status_get status ''OpenDate'' then 1 else 0),
           total_partial_missing_items = total_partial_missing_items a + (if partial then 1 else 0),
           Description_success_when_partial_missing = Description_success_when_partial_missing a
              + (if partial \<and> status_get status ''Description'' then 1 else 0)\<rparr>)"

text \<open>
  The report that \<open>generate_stats_dict\<close> builds. The rates in percent are floating-point
  numbers computed from the counts beside them; they are left out. A block that the
  source replaces by a message, because its total is zero, is absent.
\<close>

record stats_report =
  total_processed_items :: nat
  field_extraction_success_rate :: "(string \<times> nat \<times> nat) list"
  kind_A_special_stats :: "(nat \<times> nat \<times> nat) option"
  description_fallback_stats :: "(nat \<times> nat) option"

definition generate_stats_dict :: "acc \<Rightarrow> stats_report" where
  "generate_stats_dict a =
     \<lparr>total_processed_items = items_count a,
      field_extraction_success_rate =
        (if items_count a > 0
         then map (\<lambda>fc. (fst fc, snd fc, items_count a)) (sort_key fst (field_success_counts a))
         else []),
      kind_A_special_stats =
        (if total_A_items a > 0
         then Some (total_A_items a, OpenNumber_success a, OpenDate_success a) else None),
      description_fallback_stats =
        (if total_partial_missing_items a > 0
         then Some (total_partial_missing_items a, Description_success_when_partial_missing a)
         else None)\<rparr>"

section \<open>Processing one year\<close>

text \<open>A chunk as it is sealed: its number, its records, and the chunk-level accumulator
  and list of missing-field notes at that moment.\<close>

record sealed_chunk =
  chunk_no :: nat
  chunk_records :: "parsed list"
  chunk_acc :: acc
  chunk_missing :: "missing list"

datatype content = Records "parsed list" | Stats stats_report | Missing "missing list"

text \<open>The files written when a chunk is sealed: the records, the statistics of the chunk,
  and its missing-field notes when there are any.\<close>

definition chunk_files :: "string \<Rightarrow> sealed_chunk \<Rightarrow> (string \<times> content) list" where
  "chunk_files year c =
     (let chunk_file_name_base = year @ ''_chunk_'' @ str_nat (chunk_no c)
      in [(chunk_file_name_base @ ''.json'', Records (chunk_records c)),
          (chunk_file_name_base @ ''_extraction_stats_report.json'',
             Stats (generate_stats_dict (chunk_acc c)))]
         @ (if chunk_missing c \<noteq> []
            then [(chunk_file_name_base @ ''_missing_items_report.json'', Missing (chunk_missing c))]
            else []))"

record year_state =
  chunk_count :: nat
  current_chunk_data :: "parsed list"
  current_size_bytes :: nat
  success_count :: nat
  fail_count :: nat
  failed_files :: "(string \<times> failure) list"
  year_acc :: acc
  yearly_total_missing_item_reports :: "missing list"
  current_chunk_acc :: acc
  current_chunk_missing_details_list :: "missing list"
  sealed :: "sealed_chunk list"

definition initial_state :: year_state where
  "initial_state =
     \<lparr>chunk_count = 0, current_chunk_data = [], current_size_bytes = 0,
      success_count = 0, fail_count = 0, failed_files = [],
      year_acc = empty_acc, yearly_total_missing_item_reports = [],
      current_chunk_acc = empty_acc, current_chunk_missing_details_list = [],
      sealed = []\<rparr>"

text \<open>\<open>[m] if m else []\<close> for an optional note.\<close>

fun note_list :: "missing option \<Rightarrow> missing list" where
  "note_list None = []"
| "note_list (Some m) = [m]"

text \<open>The test that seals the active chunk before a record of \<open>item_size\<close> bytes is appended.\<close>

definition must_seal :: "int \<Rightarrow> int \<Rightarrow> year_state \<Rightarrow> nat \<Rightarrow> bool" where
  "must_seal max_items_per_file max_size_bytes s item_size =
     (current_chunk_data s \<noteq> [] \<and>
      (int (length (current_chunk_data s)) \<ge> max_items_per_file
       \<or> int (current_size_bytes s + item_size) > max_size_bytes))"

text \<open>Sealing writes the chunk and resets the chunk-level variables.\<close>

definition seal :: "year_state \<Rightarrow> year_state" where
  "seal s =
     s\<lparr>chunk_count := Suc (chunk_count s),
       sealed := sealed s @ [\<lparr>chunk_no = Suc (chunk_count s),
                              chunk_records = current_chunk_data s,
                              chunk_acc = current_chunk_acc s,
                              chunk_missing = current_chunk_missing_details_list s\<rparr>],
       current_chunk_data := [],
       current_size_bytes := 0,
       current_chunk_acc := empty_acc,
       current_chunk_missing_details_list := []\<rparr>"

text \<open>
  The body of the loop for one result. The serialized size of a record is that of
  \<open>json.dumps\<close>, a library routine: it is the argument \<open>size_of\<close>.
\<close>

definition consume :: "(parsed \<Rightarrow> nat) \<Rightarrow> int \<Rightarrow> int \<Rightarrow> year_state \<Rightarrow> result \<Rightarrow> year_state" where
  "consume size_of max_items_per_file max_size_bytes s r =
     (case error r of
        Some err \<Rightarrow> s\<lparr>fail_count := Suc (fail_count s),
                       failed_files := failed_files s @ [(file_path r, err)]\<rparr>
      | None \<Rightarrow>
          (let s1 = s\<lparr>success_count := Suc (success_count s)\<rparr>
           in case parsed_data r of
                None \<Rightarrow> s1
              | Some parsed_rec \<Rightarrow>
                  if parsed_rec = [] then s1
                  else (let s2 = s1\<lparr>year_acc := count_item parsed_rec (extraction_status r) (year_acc s1),
                                      yearly_total_missing_item_reports :=
                                        yearly_total_missing_item_reports s1 @ note_list (missing_details r),
                                      current_chunk_missing_details_list :=
                                        current_chunk_missing_details_list s1 @ note_list (missing_details r),
                                      current_chunk_acc :=
                                        count_item parsed_rec (extraction_status r) (current_chunk_acc s1)\<rparr>;
                            item_size = size_of parsed_rec;
                            s3 = (if must_seal max_items_per_file max_size_bytes s2 item_size
                                  then seal s2 else s2)
                        in s3\<lparr>current_chunk_data := current_chunk_data s3 @ [parsed_rec],
                              current_size_bytes := current_size_bytes s3 + item_size\<rparr>)))"

text \<open>After the loop whatever remains in the active chunk is sealed.\<close>

definition seal_rest :: "year_state \<Rightarrow> year_state" where
  "seal_rest s = (if current_chunk_data s \<noteq> [] then seal s else s)"

record year_outcome =
  successes :: nat
  failures :: nat
  failure_list :: "(string \<times> failure) list"
  year_result_data :: "(stats_report \<times> missing list) option"
  chunks :: "sealed_chunk list"
  files :: "(string \<times> content) list"

definition year_files :: "string \<Rightarrow> year_state \<Rightarrow> (string \<times> content) list" where
  "year_files year s =
     [(year @ ''_extraction_stats_report.json'', Stats (generate_stats_dict (year_acc s)))]
     @ (if yearly_total_missing_item_reports s \<noteq> []
        then [(year @ ''_missing_items_report.json'', Missing (yearly_total_missing_item_reports s))]
        else [])"

text \<open>The loop over the results, from the initial values of the variables.\<close>

definition consume_all :: "(parsed \<Rightarrow> nat) \<Rightarrow> int \<Rightarrow> int \<Rightarrow> result list \<Rightarrow> year_state" where
  "consume_all size_of max_items_per_file max_file_size_gb results =
     foldl (consume size_of max_items_per_file (max_file_size_gb * 1024 * 1024 * 1024))
           initial_state results"

text \<open>
  \<open>process_year\<close>. The argument \<open>results\<close> is what the worker pool yields, one result per
  file in the order of completion. The argument \<open>interrupt\<close> is the number of results
  consumed when the user interrupts the run, or nothing for a run that is not
  interrupted; the handler of the interruption returns what the year-level variables
  hold and writes no file.
\<close>

definition process_year ::
  "string \<Rightarrow> result list \<Rightarrow> (parsed \<Rightarrow> nat) \<Rightarrow> int \<Rightarrow> int \<Rightarrow> nat option \<Rightarrow> year_outcome" where
  "process_year year results size_of max_items_per_file max_file_size_gb interrupt =
     (if results = []
      then \<lparr>successes = 0, failures = 0, failure_list = [], year_result_data = None,
            chunks = [], files = []\<rparr>
      else (case interrupt of
              Some k \<Rightarrow>
                (let s = consume_all size_of max_items_per_file max_file_size_gb (take k results)
                 in \<lparr>successes = success_count s, failures = fail_count s,
                      failure_list = failed_files s,
                      year_result_data = Some (generate_stats_dict (year_acc s),
                                               yearly_total_missing_item_reports s),
                      chunks = sealed s,
                      files = concat (map (chunk_files year) (sealed s))\<rparr>)
            | None \<Rightarrow>
                (let s = seal_rest (consume_all size_of max_items_per_file max_file_size_gb results)
                 in \<lparr>successes = success_count s, failures = fail_count s,
                      failure_list = failed_files s,
                      year_result_data = Some (generate_stats_dict (year_acc s),
                                               yearly_total_missing_item_reports s),
                      chunks = sealed s,
                      files = concat (map (chunk_files year) (sealed s)) @ year_files year s\<rparr>)))"

subsection \<open>What the properties of a year are stated with\<close>

text \<open>A chunk within the two bounds, where a single record may exceed either.\<close>

definition within_bounds :: "(parsed \<Rightarrow> nat) \<Rightarrow> int \<Rightarrow> int \<Rightarrow> parsed list \<Rightarrow> bool" where
  "within_bounds size_of max_items_per_file max_size_bytes records =
     (records \<noteq> [] \<and>
      (int (length records) \<le> max_items_per_file \<or> length records = 1) \<and>
      (int (sum_list (map size_of records)) \<le> max_size_bytes \<or> length records = 1))"

text \<open>A result that carries a record.\<close>

definition carries :: "result \<Rightarrow> parsed \<Rightarrow> bool" where
  "carries r parsed_rec = (error r = None \<and> parsed_data r = Some parsed_rec \<and> parsed_rec \<noteq> [])"

text \<open>How often a presence map marks a field as extracted.\<close>

definition hits :: "(string \<times> bool) list \<Rightarrow> string \<Rightarrow> nat" where
  "hits status f = length (filter (\<lambda>fe. fst fe = f \<and> snd fe) status)"

definition has_record :: "result \<Rightarrow> bool" where
  "has_record r = (error r = None \<and> parsed_data r \<noteq> None \<and> parsed_data r \<noteq> Some [])"

text \<open>The chunk that sealing a state writes.\<close>

definition snapshot :: "year_state \<Rightarrow> sealed_chunk" where
  "snapshot s = \<lparr>chunk_no = Suc (chunk_count s), chunk_records = current_chunk_data s,
                  chunk_acc = current_chunk_acc s,
                  chunk_missing = current_chunk_missing_details_list s\<rparr>"

text \<open>The state after the statistics of a record are counted, before the chunk is tested,
  and the state after the record is appended.\<close>

definition counted :: "year_state \<Rightarrow> result \<Rightarrow> parsed \<Rightarrow> year_state" where
  "counted s r parsed_rec =
     s\<lparr>success_count := Suc (success_count s),
       year_acc := count_item parsed_rec (extraction_status r) (year_acc s),
       yearly_total_missing_item_reports :=
         yearly_total_missing_item_reports s @ note_list (missing_details r),
       current_chunk_missing_details_list :=
         current_chunk_missing_details_list s @ note_list (missing_details r),
       current_chunk_acc := count_item parsed_rec (extraction_status r) (current_chunk_acc s)\<rparr>"

definition appended :: "year_state \<Rightarrow> parsed \<Rightarrow> nat \<Rightarrow> year_state" where
  "appended s parsed_rec item_size =
     s\<lparr>current_chunk_data := current_chunk_data s @ [parsed_rec],
       current_size_bytes := current_size_bytes s + item_size\<rparr>"

text \<open>The invariants of the loop.\<close>

definition chunks_inv :: "(parsed \<Rightarrow> nat) \<Rightarrow> int \<Rightarrow> int \<Rightarrow> year_state \<Rightarrow> bool" where
  "chunks_inv size_of mi ms s =
     (current_size_bytes s = sum_list (map size_of (current_chunk_data s)) \<and>
      (current_chunk_data s = [] \<or> within_bounds size_of mi ms (current_chunk_data s)) \<and>
      (\<forall>c \<in> set (sealed s). within_bounds size_of mi ms (chunk_records c)))"

definition additive_inv :: "year_state \<Rightarrow> bool" where
  "additive_inv s =
     ((\<forall>f. count_of (field_success_counts (year_acc s)) f =
           sum_list (map (\<lambda>c. count_of (field_success_counts (chunk_acc c)) f) (sealed s))
           + count_of (field_success_counts (current_chunk_acc s)) f) \<and>
      items_count (year_acc s) =
        sum_list (map (\<lambda>c. items_count (chunk_acc c)) (sealed s)) + items_count (current_chunk_acc s) \<and>
      (current_chunk_data s = [] \<longrightarrow> current_chunk_acc s = empty_acc))"

definition first_chunk_inv :: "year_state \<Rightarrow> bool" where
  "first_chunk_inv s =
     ((sealed s = [] \<longrightarrow> items_count (current_chunk_acc s) = length (current_chunk_data s)) \<and>
      (sealed s \<noteq> [] \<longrightarrow>
         items_count (chunk_acc (hd (sealed s))) = Suc (length (chunk_records (hd (sealed s))))))"

text \<open>A field of a record that is missing or false: null, or an empty string, list or map.\<close>

definition absent :: "parsed \<Rightarrow> string \<Rightarrow> bool" where
  "absent parsed_rec key =
     (case map_of parsed_rec key of
        None \<Rightarrow> True
      | Some v \<Rightarrow> v = XNone \<or> v = XStr [] \<or> v = XList [] \<or> v = XDict [])"

text \<open>The sealed chunks are numbered from 1 in the order of their sealing.\<close>

definition numbered_inv :: "year_state \<Rightarrow> bool" where
  "numbered_inv s =
     (chunk_count s = length (sealed s) \<and>
      (\<forall>i < length (sealed s). chunk_no (sealed s ! i) = Suc i))"

text \<open>After the first sealing the active chunk holds one record more than its statistics
  count: its first record was counted in the chunk before.\<close>

definition later_chunk_inv :: "year_state \<Rightarrow> bool" where
  "later_chunk_inv s =
     ((sealed s \<noteq> [] \<longrightarrow> length (current_chunk_data s) = Suc (items_count (current_chunk_acc s))) \<and>
      (\<forall>i < length (sealed s). 0 < i \<longrightarrow>
         length (chunk_records (sealed s ! i)) = items_count (chunk_acc (sealed s ! i))))"

text \<open>The chunk that follows the first \<open>m\<close> sealed chunks begins with a given record, whether
  it is still the active chunk or sealed already.\<close>

definition opened_by :: "parsed \<Rightarrow> nat \<Rightarrow> year_state \<Rightarrow> bool" where
  "opened_by parsed_rec m s =
     (if length (sealed s) = m
      then current_chunk_data s \<noteq> [] \<and> hd (current_chunk_data s) = parsed_rec
      else m < length (sealed s) \<and> chunk_records (sealed s ! m) \<noteq> []
           \<and> hd (chunk_records (sealed s ! m)) = parsed_rec)"

section \<open>Sample inputs\<close>

text \<open>An environment for running the definitions: no heading phrases, a date parser that
  rejects every text, and no classification code or party names.\<close>

definition plain_env :: env where
  "plain_env =
     \<lparr>py_repr = (\<lambda>v. []), py_strptime = (\<lambda>s. None),
      drawing_markers = [], embodiment_markers = [],
      cn_main_cpc = (\<lambda>biblio. Inr XNone), cn_applicant_name = (\<lambda>parties. Inr XNone),
      cn_inventor_name = (\<lambda>parties. Inr XNone), cn_agent_name = (\<lambda>parties. Inr XNone),
      extract_cpc_info = (\<lambda>root biblio. Inr XNone), extract_applicant_info = (\<lambda>biblio. Inr XNone),
      extract_inventor_info = (\<lambda>biblio. Inr XNone), extract_agent_info = (\<lambda>biblio. Inr XNone),
      converted_date = ''2021-01-01 00:00:00'', basename = (\<lambda>path. path)\<rparr>"

text \<open>
  A document of unknown family, as the structural parser returns it for
  \<^verbatim>\<open><patent applicationNumber="" kind="B"><application-body>\<close>
  \<^verbatim>\<open><description>A gear.</description></application-body></patent>\<close>.
\<close>

definition sample_document :: "(string \<times> xml) list" where
  "sample_document =
     [(''patent'', XDict [(''@applicationNumber'', XStr ''''), (''@kind'', XStr ''B''),
                          (''application-body'', XDict [(''description'', XStr ''A gear.'')])])]"

definition sample_result :: result where
  "sample_result = process_xml_file plain_env ''a.xml'' (Document sample_document)"

text \<open>
  A utility model of unknown family, with its kind in lower case:
  \<^verbatim>\<open><patent applicationNumber="20212345.0" kind="y"><application-body>\<close>
  \<^verbatim>\<open><description/></application-body></patent>\<close>, and the record that the fallback
  parser returns for a root node.
\<close>

definition utility_root :: xml where
  "utility_root =
     XDict [(''@applicationNumber'', XStr ''20212345.0''), (''@kind'', XStr ''y''),
            (''application-body'', XDict [(''description'', XNone)])]"

definition registered_root :: xml where
  "registered_root =
     XDict [(''@applicationNumber'', XStr ''20212345.0''), (''@kind'', XStr ''b''),
            (''application-body'', XDict [(''description'', XNone)])]"

definition fallback_sample :: "xml \<Rightarrow> parsed" where
  "fallback_sample root = (case process_fallback_xml plain_env root of Inr (Some r) \<Rightarrow> r | _ \<Rightarrow> [])"

text \<open>Two documents with a description that is a map: one with paragraphs only, one with
  both section tags.\<close>

definition described_root :: xml where
  "described_root =
     XDict [(''@kind'', XStr ''A''),
            (''application-body'',
               XDict [(''description'', XDict [(''p'', XList [XStr ''A gear.'', XStr ''It turns.''])])])]"

definition sectioned_root :: xml where
  "sectioned_root =
     XDict [(''@kind'', XStr ''A''),
            (''application-body'',
               XDict [(''description'',
                  XDict [(''drawings'', XStr ''Fig. 1 shows a gear.''),
                         (''embodiments'', XStr ''The gear turns.'')])])]"

section \<open>What the properties of a record are stated with\<close>

text \<open>A record returned by one of the three variant parsers for a root node.\<close>

definition returned_by :: "env \<Rightarrow> xml \<Rightarrow> parsed \<Rightarrow> bool" where
  "returned_by e root r =
     (parse_cn_patent e root = Inr r \<or> parse_business e root = Inr r
      \<or> process_fallback_xml e root = Inr (Some r))"

text \<open>A record built by \<open>create_parsed_result\<close> from a document kind, from the numbers and
  dates that \<open>format_numbers\<close> derived, and from the sections of a description node.\<close>

definition built_from :: "env \<Rightarrow> parsed \<Rightarrow> xml \<Rightarrow> numbers \<Rightarrow> xml \<Rightarrow> bool" where
  "built_from e r kind n description =
     (\<exists>main_cpc register_dt app_date applicant_name inventor_name agent_name title summary claims.
        (register_dt = register_date n) \<and>
        r = create_parsed_result main_cpc kind (open_number n) (open_date n)
              (register_number n) register_dt
              (publication_number n) (publication_date n) (clean_app n) app_date
              applicant_name inventor_name agent_name title summary
              (opt_text (fst (description_fields e description)))
              (opt_text (fst (snd (description_fields e description))))
              (opt_text (snd (snd (description_fields e description))))
              claims)"

text \<open>The full text of a description node: that of a map, nothing for any other node.\<close>

definition full_text :: "xml \<Rightarrow> string option" where
  "full_text description = (if is_dict description then extract_text description else None)"

section \<open>Properties of the structural search\<close>

lemma node_at_snoc:
  "node_at v (p @ [j]) = (case node_at v p of None \<Rightarrow> None | Some u \<Rightarrow> child u j)"
  by (induction p arbitrary: v) (auto split: option.splits)

lemma child_container: "child u j = Some v \<Longrightarrow> is_container u"
  by (cases u) (auto simp: is_container_def)

lemma container_at_butlast: "container_at obj p \<Longrightarrow> p \<noteq> [] \<Longrightarrow> container_at obj (butlast p)"
proof -
  assume c: "container_at obj p" and ne: "p \<noteq> []"
  then obtain q j where p: "p = q @ [j]" by (metis append_butlast_last_id)
  from c obtain v where v: "node_at obj (q @ [j]) = Some v"
    by (auto simp: container_at_def p split: option.splits)
  then obtain u where u: "node_at obj q = Some u" and ch: "child u j = Some v"
    by (auto simp: node_at_snoc split: option.splits)
  from ch have "is_container u" by (rule child_container)
  with u show ?thesis by (simp add: p container_at_def)
qed

lemma child_key_index:
  "has_key kvs key \<Longrightarrow> child (XDict kvs) (key_index kvs key) = Some (item kvs key)"
proof (induction kvs)
  case Nil
  then show ?case by (simp add: has_key_def)
next
  case (Cons kv kvs)
  obtain k v where kv: "kv = (k, v)" by (cases kv)
  show ?case
  proof (cases "k = key")
    case True
    then show ?thesis by (simp add: kv item_def)
  next
    case False
    with Cons.prems have hk: "has_key kvs key" by (simp add: kv has_key_def)
    from hk have "child (XDict kvs) (key_index kvs key) = Some (item kvs key)" by (rule Cons.IH)
    moreover from False have "item (kv # kvs) key = item kvs key" by (simp add: kv item_def)
    ultimately show ?thesis using False by (auto simp: kv split: if_splits)
  qed
qed

lemma children_mem:
  "(q, v) \<in> set (children p vs) \<longleftrightarrow> (\<exists>j < length vs. q = p @ [j] \<and> v = vs ! j \<and> v \<noteq> XNone)"
  by (auto simp: children_def)

lemma match_queue_mem:
  "(q, v) \<in> set (match_queue p (XList vs)) \<longleftrightarrow> (\<exists>j < length vs. q = p @ [j] \<and> v = vs ! j)"
  by auto

lemma search_inv_skip:
  assumes "search_inv obj key ((p, cur) # queue) visited results"
    and "\<not> is_container cur \<or> p \<in> set visited"
  shows "search_inv obj key queue visited results"
  using assms unfolding search_inv_def
  apply (intro conjI)
      apply simp
     apply simp
    apply simp
   apply simp
  apply (auto)
  done


lemma child_children:
  assumes "child cur j = Some v" and "is_container v"
  shows "(p @ [j], v) \<in> set (children p (case cur of XList xs \<Rightarrow> xs | XDict kvs \<Rightarrow> map snd kvs | _ \<Rightarrow> []))"
proof (cases cur)
  case (XList xs)
  with assms(1) have "j < length xs" and "v = xs ! j" by (auto split: if_splits)
  moreover from assms(2) have "v \<noteq> XNone" by (auto simp: is_container_def)
  ultimately show ?thesis by (auto simp: XList children_mem)
next
  case (XDict kvs)
  with assms(1) have "j < length kvs" and "v = snd (kvs ! j)" by (auto split: if_splits)
  moreover from assms(2) have "v \<noteq> XNone" by (auto simp: is_container_def)
  ultimately show ?thesis by (auto simp: XDict children_mem)
qed (use assms in auto)

lemma search_inv_expand:
  assumes inv: "search_inv obj key ((p, cur) # queue) visited results"
    and new: "p \<notin> set visited"
    and cont: "is_container cur"
    and extra: "\<forall>(q, v) \<in> set extra. node_at obj q = Some v"
  shows "search_inv obj key
           (queue @ extra @ children p (case cur of XList xs \<Rightarrow> xs | XDict kvs \<Rightarrow> map snd kvs | _ \<Rightarrow> []))
           (p # visited) (results @ found_at obj key p)"
proof -
  let ?vs = "case cur of XList xs \<Rightarrow> xs | XDict kvs \<Rightarrow> map snd kvs | _ \<Rightarrow> []"
  from inv have at_p: "node_at obj p = Some cur"
    and at_q: "\<forall>(q, v) \<in> set queue. node_at obj q = Some v"
    and vis: "\<forall>p \<in> set visited. container_at obj p"
    and dst: "distinct visited"
    and res: "results = concat (map (found_at obj key) (rev visited))"
    and cover: "\<forall>p' v. node_at obj p' = Some v \<and> is_container v \<and> (p' = [] \<or> butlast p' \<in> set visited)
         \<longrightarrow> p' \<in> set visited \<or> (p', v) \<in> set ((p, cur) # queue)"
    by (auto simp: search_inv_def)
  have child_eq: "child cur j = (if j < length ?vs then Some (?vs ! j) else None)" for j
    using cont by (cases cur) (auto simp: is_container_def)
  have c1: "\<forall>(q, v) \<in> set (queue @ extra @ children p ?vs). node_at obj q = Some v"
  proof -
    have "\<forall>(q, v) \<in> set (children p ?vs). node_at obj q = Some v"
      by (auto simp: children_mem node_at_snoc at_p child_eq)
    with at_q extra show ?thesis by auto
  qed
  have c2: "\<forall>p' \<in> set (p # visited). container_at obj p'"
    using vis at_p cont by (simp add: container_at_def)
  have c3: "distinct (p # visited)" using dst new by simp
  have c4: "results @ found_at obj key p = concat (map (found_at obj key) (rev (p # visited)))"
    using res by simp
  have c5: "\<forall>p' v. node_at obj p' = Some v \<and> is_container v \<and> (p' = [] \<or> butlast p' \<in> set (p # visited))
         \<longrightarrow> p' \<in> set (p # visited) \<or> (p', v) \<in> set (queue @ extra @ children p ?vs)"
  proof (intro allI impI)
    fix p' v
    assume a: "node_at obj p' = Some v \<and> is_container v \<and> (p' = [] \<or> butlast p' \<in> set (p # visited))"
    show "p' \<in> set (p # visited) \<or> (p', v) \<in> set (queue @ extra @ children p ?vs)"
    proof (cases "p' \<noteq> [] \<and> butlast p' = p")
      case True
      then obtain j where p': "p' = p @ [j]" by (metis append_butlast_last_id)
      with a at_p have "child cur j = Some v" by (simp add: node_at_snoc)
      with a have "(p @ [j], v) \<in> set (children p ?vs)" by (intro child_children) auto
      then show ?thesis by (simp add: p')
    next
      case False
      with a have "p' = [] \<or> butlast p' \<in> set visited" by auto
      with a cover have "p' \<in> set visited \<or> (p', v) \<in> set ((p, cur) # queue)" by blast
      then show ?thesis by auto
    qed
  qed
  show ?thesis
    unfolding search_inv_def by (intro conjI c1 c2 c3 c4 c5)
qed

text \<open>When the queue is empty every map and sequence of the tree has been expanded.\<close>

lemma search_inv_queue:
  "search_inv obj key queue visited results \<Longrightarrow> (q, v) \<in> set queue \<Longrightarrow> node_at obj q = Some v"
  unfolding search_inv_def by blast

lemma search_inv_visited:
  "search_inv obj key queue visited results \<Longrightarrow> p \<in> set visited \<Longrightarrow> container_at obj p"
  unfolding search_inv_def by blast

lemma search_inv_distinct:
  "search_inv obj key queue visited results \<Longrightarrow> distinct visited"
  unfolding search_inv_def by (elim conjE)

lemma search_inv_results:
  "search_inv obj key queue visited results \<Longrightarrow>
   results = concat (map (found_at obj key) (rev visited))"
  unfolding search_inv_def by (elim conjE)

lemma search_inv_cover:
  assumes "search_inv obj key queue visited results"
    and "node_at obj p = Some v" and "is_container v"
    and "p = [] \<or> butlast p \<in> set visited"
  shows "p \<in> set visited \<or> (p, v) \<in> set queue"
proof -
  from assms(1) have "\<forall>p v. node_at obj p = Some v \<and> is_container v \<and> (p = [] \<or> butlast p \<in> set visited)
         \<longrightarrow> p \<in> set visited \<or> (p, v) \<in> set queue"
    unfolding search_inv_def by (elim conjE)
  with assms(2-4) show ?thesis by blast
qed

lemma search_inv_done:
  assumes inv: "search_inv obj key [] visited results" and c: "container_at obj p"
  shows "p \<in> set visited"
  using c
proof (induction p rule: rev_induct)
  case Nil
  then have "is_container obj" by (simp add: container_at_def)
  with search_inv_cover [OF inv, of "[]" obj] show ?case by simp
next
  case (snoc j q)
  from snoc.prems have "container_at obj (butlast (q @ [j]))" by (rule container_at_butlast) simp
  then have q: "q \<in> set visited" using snoc.IH by simp
  from snoc.prems obtain v where v: "node_at obj (q @ [j]) = Some v" and cv: "is_container v"
    by (auto simp: container_at_def split: option.splits)
  from search_inv_cover [OF inv v cv] q show ?case by simp
qed

lemma safe_get_loop_visits:
  "search_inv obj key queue visited results \<Longrightarrow>
   \<exists>order. distinct order \<and> set order = {p. container_at obj p} \<and>
           safe_get_loop key queue visited results = concat (map (found_at obj key) order)"
proof (induction key queue visited results rule: safe_get_loop.induct)
  case (1 key visited results)
  have "set (rev visited) = {p. container_at obj p}"
    using search_inv_done [OF 1] search_inv_visited [OF 1] by auto
  moreover have "distinct (rev visited)" using search_inv_distinct [OF 1] by simp
  moreover have "safe_get_loop key [] visited results = concat (map (found_at obj key) (rev visited))"
    using search_inv_results [OF 1] by simp
  ultimately show ?case by blast
next
  case (2 key p queue visited results)
  from 2(2) have "search_inv obj key queue visited results"
    by (rule search_inv_skip) (simp add: is_container_def)
  then show ?case using 2(1) by simp
next
  case (3 key p s queue visited results)
  from 3(2) have "search_inv obj key queue visited results"
    by (rule search_inv_skip) (simp add: is_container_def)
  then show ?case using 3(1) by simp
next
  case (4 key p xs queue visited results)
  show ?case
  proof (cases "p \<in> set visited")
    case True
    then have "search_inv obj key queue visited results"
      by (intro search_inv_skip [OF 4(3)] disjI2)
    with True 4(1) show ?thesis by simp
  next
    case False
    have at_p: "node_at obj p = Some (XList xs)" by (rule search_inv_queue [OF 4(3)]) simp
    have "search_inv obj key (queue @ [] @ children p xs) (p # visited) (results @ found_at obj key p)"
      using search_inv_expand [OF 4(3) False, of "[]"] by (simp add: is_container_def)
    moreover have "found_at obj key p = []" by (simp add: found_at_def at_p)
    ultimately have "search_inv obj key (queue @ children p xs) (p # visited) results" by simp
    with False 4(2) show ?thesis by simp
  qed
next
  case (5 key p kvs queue visited results)
  show ?case
  proof (cases "p \<in> set visited")
    case True
    then have "search_inv obj key queue visited results"
      by (intro search_inv_skip [OF 5(4)] disjI2)
    with True 5(1) show ?thesis by simp
  next
    case False
    have at_p: "node_at obj p = Some (XDict kvs)" by (rule search_inv_queue [OF 5(4)]) simp
    show ?thesis
    proof (cases "has_key kvs key")
      case True
      let ?extra = "match_queue (p @ [key_index kvs key]) (item kvs key)"
      have at_item: "node_at obj (p @ [key_index kvs key]) = Some (item kvs key)"
        using child_key_index [OF True] by (simp add: node_at_snoc at_p)
      have "\<forall>(q, v) \<in> set ?extra. node_at obj q = Some v"
      proof (cases "item kvs key")
        case (XList vs)
        have "node_at obj ((p @ [key_index kvs key]) @ [j]) = Some (vs ! j)" if "j < length vs" for j
          using that at_item by (simp only: node_at_snoc [of obj "p @ [key_index kvs key]" j])
                                (simp add: XList)
        then show ?thesis
          by (auto simp: XList)
      qed simp_all
      then have "search_inv obj key (queue @ ?extra @ children p (map snd kvs)) (p # visited)
                   (results @ found_at obj key p)"
        using search_inv_expand [OF 5(4) False, of ?extra] by (simp add: is_container_def)
      moreover have "found_at obj key p = match_results (item kvs key)"
        by (simp add: found_at_def at_p True)
      ultimately have "search_inv obj key (queue @ ?extra @ children p (map snd kvs)) (p # visited)
                   (results @ match_results (item kvs key))" by simp
      with False True 5(2) show ?thesis by simp
    next
      case nokey: False
      have "search_inv obj key (queue @ [] @ children p (map snd kvs)) (p # visited)
              (results @ found_at obj key p)"
        using search_inv_expand [OF 5(4) False, of "[]"] by (simp add: is_container_def)
      moreover have "found_at obj key p = []" by (simp add: found_at_def at_p nokey)
      ultimately have "search_inv obj key (queue @ children p (map snd kvs)) (p # visited) results"
        by simp
      with False nokey 5(3) show ?thesis by simp
    qed
  qed
qed

lemma search_inv_start: "search_inv obj key [([], obj)] [] []"
  by (auto simp: search_inv_def)

lemma safe_get_direct: "holds_key obj key \<Longrightarrow> safe_get obj key = safe_dict_get obj key XNone"
  by (cases obj) (auto simp: has_key_def item_def split: option.splits)

lemma safe_get_searched:
  "\<not> holds_key obj key \<Longrightarrow> safe_get obj key = collapse (safe_get_loop key [([], obj)] [] [])"
  by (cases obj) simp_all

lemma found_at_stored:
  "found_at obj key p = (case stored_at obj key p of None \<Rightarrow> [] | Some v \<Rightarrow> match_results v)"
  by (auto simp: found_at_def stored_at_def has_key_def item_def split: option.splits xml.splits)

lemma match_results_text: "\<not> filled_list v \<Longrightarrow> match_results v = [text_content v]"
proof (cases v)
  case (XList vs)
  assume "\<not> filled_list v"
  with XList have "vs = []" by (cases vs) simp_all
  with XList show ?thesis by simp
next
  case (XDict vd)
  then show ?thesis by (auto simp: has_key_def item_def split: option.splits)
qed simp_all

lemma list_free_child: "list_free key u \<Longrightarrow> child u j = Some v \<Longrightarrow> list_free key v"
  by (cases u) (auto split: if_splits)

lemma list_free_node: "list_free key obj \<Longrightarrow> node_at obj p = Some v \<Longrightarrow> list_free key v"
proof (induction p arbitrary: obj)
  case Nil
  then show ?case by simp
next
  case (Cons j p)
  from Cons.prems(2) obtain c where c: "child obj j = Some c" and v: "node_at c p = Some v"
    by (auto split: option.splits)
  from Cons.prems(1) c have "list_free key c" by (rule list_free_child)
  then show ?case using v by (rule Cons.IH)
qed

lemma list_free_stored:
  assumes "list_free key obj" and "stored_at obj key p = Some v"
  shows "\<not> filled_list v"
proof -
  from assms(2) obtain kvs where at: "node_at obj p = Some (XDict kvs)" and v: "map_of kvs key = Some v"
    by (auto simp: stored_at_def split: option.splits xml.splits)
  from assms(1) at have "list_free key (XDict kvs)" by (rule list_free_node)
  with v show ?thesis by simp
qed

lemma stored_at_container: "stored_at obj key p = Some v \<Longrightarrow> container_at obj p"
  by (auto simp: stored_at_def container_at_def is_container_def split: option.splits xml.splits)

lemma concat_singletons:
  "\<forall>p \<in> set ps. f p = (case h p of None \<Rightarrow> [] | Some v \<Rightarrow> [g v]) \<Longrightarrow>
   concat (map f ps) = map (\<lambda>p. g (the (h p))) (filter (\<lambda>p. h p \<noteq> None) ps)"
  by (induction ps) (auto split: option.splits)

lemma safe_get_loop_matches:
  assumes "list_free key obj"
  shows "\<exists>order. distinct order \<and> set order = {p. stored_at obj key p \<noteq> None} \<and>
           safe_get_loop key [([], obj)] [] []
             = map (\<lambda>p. text_content (the (stored_at obj key p))) order"
proof -
  from safe_get_loop_visits [OF search_inv_start, of obj key]
  obtain visited where d: "distinct visited" and s: "set visited = {p. container_at obj p}"
    and r: "safe_get_loop key [([], obj)] [] [] = concat (map (found_at obj key) visited)"
    by blast
  let ?order = "filter (\<lambda>p. stored_at obj key p \<noteq> None) visited"
  have "\<forall>p \<in> set visited. found_at obj key p
          = (case stored_at obj key p of None \<Rightarrow> [] | Some v \<Rightarrow> [text_content v])"
    using list_free_stored [OF assms]
    by (auto simp: found_at_stored match_results_text split: option.splits)
  then have "concat (map (found_at obj key) visited)
          = map (\<lambda>p. text_content (the (stored_at obj key p))) ?order"
    by (rule concat_singletons)
  moreover have "distinct ?order" using d by simp
  moreover have "set ?order = {p. stored_at obj key p \<noteq> None}"
    using s stored_at_container [of obj key] by auto
  ultimately show ?thesis using r by metis
qed

lemma collapse_cases:
  "collapse vs = (case vs of [] \<Rightarrow> XNone | [v] \<Rightarrow> v | v # w # ws \<Rightarrow> XList (v # w # ws))"
  by (cases vs rule: collapse.cases) simp_all

text \<open>
  Claim C6, as the code has it. When the map given to \<open>safe_get\<close> holds the key itself
  (the empty position is that of the value given), the value stored under it is
  returned as it is: a wrapper map is not replaced by its text
  content and nothing below is searched. Otherwise, in a tree where no map stores a
  non-empty sequence under the key, the matches are the maps of the tree that hold the
  key, each counted once; a matched value that is a map with a text-content key
  (\<open>#text\<close> before \<open>text\<close>) is replaced by that text content; one match is returned
  unwrapped, several as a list of them, none as null.
\<close>

theorem safe_get_contract:
  "(\<forall>v. stored_at obj key [] = Some v \<longrightarrow> safe_get obj key = v) \<and>
   (stored_at obj key [] = None \<and> list_free key obj \<longrightarrow>
      (\<exists>order. distinct order \<and> set order = {p. stored_at obj key p \<noteq> None} \<and>
         safe_get obj key =
           (case map (\<lambda>p. text_content (the (stored_at obj key p))) order of
              [] \<Rightarrow> XNone
            | [v] \<Rightarrow> v
            | v # w # vs \<Rightarrow> XList (v # w # vs))))"
proof (intro conjI allI impI)
  fix v
  assume "stored_at obj key [] = Some v"
  then show "safe_get obj key = v"
    by (cases obj) (auto simp: stored_at_def has_key_def item_def)
next
  assume a: "stored_at obj key [] = None \<and> list_free key obj"
  then have miss: "\<not> holds_key obj key" by (cases obj) (simp_all add: stored_at_def has_key_def)
  from a safe_get_loop_matches [of key obj]
  obtain order where "distinct order" and "set order = {p. stored_at obj key p \<noteq> None}"
    and "safe_get_loop key [([], obj)] [] []
           = map (\<lambda>p. text_content (the (stored_at obj key p))) order"
    by blast
  with safe_get_searched [OF miss]
  show "\<exists>order. distinct order \<and> set order = {p. stored_at obj key p \<noteq> None} \<and>
         safe_get obj key =
           (case map (\<lambda>p. text_content (the (stored_at obj key p))) order of
              [] \<Rightarrow> XNone
            | [v] \<Rightarrow> v
            | v # w # vs \<Rightarrow> XList (v # w # vs))"
    by (auto simp: collapse_cases)
qed

theorem safe_get_contract_witness:
  "stored_at (XDict [(''a'', XDict [(''#text'', XStr ''x''), (''@id'', XStr ''1'')])]) ''a'' []
     = Some (XDict [(''#text'', XStr ''x''), (''@id'', XStr ''1'')]) \<and>
   safe_get (XDict [(''a'', XDict [(''#text'', XStr ''x''), (''@id'', XStr ''1'')])]) ''a''
     = XDict [(''#text'', XStr ''x''), (''@id'', XStr ''1'')] \<and>
   stored_at wrapped_twice ''a'' [] = None \<and>
   list_free ''a'' wrapped_twice \<and>
   safe_get wrapped_twice ''a'' = XList [XStr ''x'', XStr ''y''] \<and>
   (\<exists>order. distinct order \<and> set order = {p. stored_at wrapped_twice ''a'' p \<noteq> None} \<and>
      XList [XStr ''x'', XStr ''y''] =
        (case map (\<lambda>p. text_content (the (stored_at wrapped_twice ''a'' p))) order of
           [] \<Rightarrow> XNone
         | [v] \<Rightarrow> v
         | v # w # vs \<Rightarrow> XList (v # w # vs)))"
proof -
  have hit: "stored_at (XDict [(''a'', XDict [(''#text'', XStr ''x''), (''@id'', XStr ''1'')])]) ''a'' []
     = Some (XDict [(''#text'', XStr ''x''), (''@id'', XStr ''1'')])"
    by (simp add: stored_at_def)
  have miss: "stored_at wrapped_twice ''a'' [] = None"
    by (simp add: wrapped_twice_def stored_at_def)
  have free: "list_free ''a'' wrapped_twice"
    by (simp add: wrapped_twice_def)
  have val: "safe_get wrapped_twice ''a'' = XList [XStr ''x'', XStr ''y'']"
    by (simp add: wrapped_twice_def has_key_def item_def children_def)
  from safe_get_contract [of "XDict [(''a'', XDict [(''#text'', XStr ''x''), (''@id'', XStr ''1'')])]" "''a''"]
    hit
  have "safe_get (XDict [(''a'', XDict [(''#text'', XStr ''x''), (''@id'', XStr ''1'')])]) ''a''
     = XDict [(''#text'', XStr ''x''), (''@id'', XStr ''1'')]"
    by blast
  moreover
  from safe_get_contract [of wrapped_twice "''a''"] miss free
  have "\<exists>order. distinct order \<and> set order = {p. stored_at wrapped_twice ''a'' p \<noteq> None} \<and>
      XList [XStr ''x'', XStr ''y''] =
        (case map (\<lambda>p. text_content (the (stored_at wrapped_twice ''a'' p))) order of
           [] \<Rightarrow> XNone
         | [v] \<Rightarrow> v
         | v # w # vs \<Rightarrow> XList (v # w # vs))"
    by (simp only: val)
  ultimately show ?thesis using hit miss free val by blast
qed

text \<open>
  The claim as written fails where it says "in particular": with the key directly in the
  map given to \<open>safe_get\<close>, a wrapper map with text content comes back as the wrapper.
\<close>

theorem safe_get_top_level_counterexample:
  "safe_get (XDict [(''a'', XDict [(''#text'', XStr ''x''), (''@id'', XStr ''1'')])]) ''a''
     \<noteq> XStr ''x''"
  by (simp add: has_key_def item_def)

section \<open>Properties of the loop over a year\<close>

lemma consume_failure:
  "error r = Some err \<Longrightarrow>
   consume size_of mi ms s r =
     s\<lparr>fail_count := Suc (fail_count s), failed_files := failed_files s @ [(file_path r, err)]\<rparr>"
  by (simp add: consume_def)

lemma consume_empty:
  "error r = None \<Longrightarrow> parsed_data r = None \<or> parsed_data r = Some [] \<Longrightarrow>
   consume size_of mi ms s r = s\<lparr>success_count := Suc (success_count s)\<rparr>"
  by (auto simp: consume_def)

lemma seal_snapshot:
  "seal s = s\<lparr>chunk_count := Suc (chunk_count s), sealed := sealed s @ [snapshot s],
              current_chunk_data := [], current_size_bytes := 0,
              current_chunk_acc := empty_acc, current_chunk_missing_details_list := []\<rparr>"
  by (simp add: seal_def snapshot_def)

lemma consume_record:
  "carries r parsed_rec \<Longrightarrow>
   consume size_of mi ms s r =
     (if must_seal mi ms s (size_of parsed_rec)
      then appended (seal (counted s r parsed_rec)) parsed_rec (size_of parsed_rec)
      else appended (counted s r parsed_rec) parsed_rec (size_of parsed_rec))"
  by (simp add: consume_def carries_def counted_def appended_def Let_def must_seal_def)

lemma result_cases:
  "(\<exists>err. error r = Some err) \<or>
   (error r = None \<and> (parsed_data r = None \<or> parsed_data r = Some [])) \<or>
   (\<exists>parsed_rec. carries r parsed_rec)"
  by (cases "error r"; cases "parsed_data r") (auto simp: carries_def)

lemma has_record_carries: "has_record r \<longleftrightarrow> (\<exists>parsed_rec. carries r parsed_rec)"
  by (cases "parsed_data r") (auto simp: has_record_def carries_def)

lemma consume_no_record:
  "\<not> has_record r \<Longrightarrow> sealed (consume size_of mi ms s r) = sealed s
     \<and> year_acc (consume size_of mi ms s r) = year_acc s
     \<and> current_chunk_acc (consume size_of mi ms s r) = current_chunk_acc s
     \<and> current_chunk_data (consume size_of mi ms s r) = current_chunk_data s
     \<and> current_size_bytes (consume size_of mi ms s r) = current_size_bytes s"
  using result_cases [of r]
  by (auto simp: has_record_carries consume_failure consume_empty)

subsection \<open>The bounds of a chunk\<close>

lemma chunks_inv_initial: "chunks_inv size_of mi ms initial_state"
  by (simp add: chunks_inv_def initial_state_def)

lemma chunks_inv_consume:
  assumes "chunks_inv size_of mi ms s"
  shows "chunks_inv size_of mi ms (consume size_of mi ms s r)"
proof (cases "has_record r")
  case False
  with assms consume_no_record [OF False, of size_of mi ms s] show ?thesis
    by (simp add: chunks_inv_def)
next
  case True
  then obtain parsed_rec where 3: "carries r parsed_rec" by (auto simp: has_record_carries)
  show ?thesis
  proof (cases "must_seal mi ms s (size_of parsed_rec)")
    case True
    with assms show ?thesis
      by (simp add: consume_record [OF 3] chunks_inv_def appended_def seal_def counted_def
          within_bounds_def must_seal_def)
  next
    case False
    with assms show ?thesis
      by (auto simp: consume_record [OF 3] chunks_inv_def appended_def counted_def
          within_bounds_def must_seal_def)
  qed
qed

lemma chunks_inv_foldl:
  "chunks_inv size_of mi ms s \<Longrightarrow> chunks_inv size_of mi ms (foldl (consume size_of mi ms) s rs)"
  by (induction rs arbitrary: s) (simp_all add: chunks_inv_consume)

lemma chunks_inv_consume_all:
  "chunks_inv size_of mi (gb * 1024 * 1024 * 1024) (consume_all size_of mi gb rs)"
  unfolding consume_all_def by (rule chunks_inv_foldl) (rule chunks_inv_initial)

lemma chunks_inv_seal_rest: "chunks_inv size_of mi ms s \<Longrightarrow> chunks_inv size_of mi ms (seal_rest s)"
  by (auto simp: chunks_inv_def seal_rest_def seal_def)

lemma chunks_inv_sealed:
  "chunks_inv size_of mi ms s \<Longrightarrow> c \<in> set (sealed s) \<Longrightarrow> within_bounds size_of mi ms (chunk_records c)"
  by (simp add: chunks_inv_def)

lemma chunks_of_process_year:
  "chunks (process_year year results size_of mi gb interrupt) =
     (if results = [] then []
      else case interrupt of
             Some k \<Rightarrow> sealed (consume_all size_of mi gb (take k results))
           | None \<Rightarrow> sealed (seal_rest (consume_all size_of mi gb results)))"
  by (simp add: process_year_def Let_def split: option.splits)

lemma files_of_process_year:
  "files (process_year year results size_of mi gb interrupt) =
     concat (map (chunk_files year) (chunks (process_year year results size_of mi gb interrupt)))
     @ (if results \<noteq> [] \<and> interrupt = None
        then year_files year (seal_rest (consume_all size_of mi gb results)) else [])"
  by (simp add: process_year_def Let_def split: option.splits)

lemma process_year_chunks_within:
  assumes "c \<in> set (chunks (process_year year results size_of mi gb interrupt))"
  shows "within_bounds size_of mi (gb * 1024 * 1024 * 1024) (chunk_records c)"
proof (cases "results = []")
  case True
  with assms show ?thesis by (simp add: chunks_of_process_year)
next
  case False
  show ?thesis
  proof (cases interrupt)
    case None
    with assms False have "c \<in> set (sealed (seal_rest (consume_all size_of mi gb results)))"
      by (simp add: chunks_of_process_year)
    then show ?thesis
      by (rule chunks_inv_sealed [OF chunks_inv_seal_rest [OF chunks_inv_consume_all]])
  next
    case (Some k)
    with assms False have "c \<in> set (sealed (consume_all size_of mi gb (take k results)))"
      by (simp add: chunks_of_process_year)
    then show ?thesis
      by (rule chunks_inv_sealed [OF chunks_inv_consume_all])
  qed
qed

lemma records_file_is_chunk:
  assumes "(name, Records records) \<in> set (files (process_year year results size_of mi gb interrupt))"
  shows "\<exists>c \<in> set (chunks (process_year year results size_of mi gb interrupt)). records = chunk_records c"
  using assms
  by (auto simp: files_of_process_year chunk_files_def year_files_def Let_def split: if_splits)

lemma sealing_rule:
  assumes "carries r parsed_rec"
  shows "sealed (consume size_of mi ms s r) =
           (if current_chunk_data s \<noteq> [] \<and>
               (int (length (current_chunk_data s)) + 1 > mi
                \<or> int (current_size_bytes s + size_of parsed_rec) > ms)
            then sealed s @ [snapshot (counted s r parsed_rec)] else sealed s)"
  by (auto simp: consume_record [OF assms] appended_def seal_snapshot counted_def must_seal_def)

lemma seal_rest_sealed:
  "sealed (seal_rest s) = sealed s @ (if current_chunk_data s \<noteq> [] then [snapshot s] else [])"
  by (simp add: seal_rest_def seal_snapshot)


text \<open>
  Claim C2, as the code has it. Every chunk that \<open>process_year\<close> seals, in a run that
  completes or is interrupted, holds at least one record; it holds at most
  \<open>max_items_per_file\<close> records or exactly one, and the serialized sizes of its records
  add up to at most \<open>max_size_bytes\<close> or it holds exactly one record. The same holds of
  every file of records written. A record seals the active chunk exactly when that
  chunk is not empty and appending the record would exceed either bound; a result
  without a record seals nothing; at the end of the year whatever remains is sealed.
\<close>

theorem process_year_chunk_bounds:
  "(\<forall>c \<in> set (chunks (process_year year results size_of mi gb interrupt)).
      within_bounds size_of mi (gb * 1024 * 1024 * 1024) (chunk_records c)) \<and>
   (\<forall>name records.
      (name, Records records) \<in> set (files (process_year year results size_of mi gb interrupt))
      \<longrightarrow> within_bounds size_of mi (gb * 1024 * 1024 * 1024) records) \<and>
   (carries r parsed_rec \<longrightarrow>
      sealed (consume size_of mi ms s r) =
        (if current_chunk_data s \<noteq> [] \<and>
            (int (length (current_chunk_data s)) + 1 > mi
             \<or> int (current_size_bytes s + size_of parsed_rec) > ms)
         then sealed s @ [snapshot (counted s r parsed_rec)] else sealed s)) \<and>
   (\<not> has_record r \<longrightarrow> sealed (consume size_of mi ms s r) = sealed s) \<and>
   sealed (seal_rest s) = sealed s @ (if current_chunk_data s \<noteq> [] then [snapshot s] else [])"
proof (intro conjI ballI allI impI)
  fix c assume "c \<in> set (chunks (process_year year results size_of mi gb interrupt))"
  then show "within_bounds size_of mi (gb * 1024 * 1024 * 1024) (chunk_records c)"
    by (rule process_year_chunks_within)
next
  fix name records
  assume "(name, Records records) \<in> set (files (process_year year results size_of mi gb interrupt))"
  then obtain c where "c \<in> set (chunks (process_year year results size_of mi gb interrupt))"
    and "records = chunk_records c"
    using records_file_is_chunk by blast
  then show "within_bounds size_of mi (gb * 1024 * 1024 * 1024) records"
    using process_year_chunks_within by blast
next
  assume "carries r parsed_rec"
  then show "sealed (consume size_of mi ms s r) =
        (if current_chunk_data s \<noteq> [] \<and>
            (int (length (current_chunk_data s)) + 1 > mi
             \<or> int (current_size_bytes s + size_of parsed_rec) > ms)
         then sealed s @ [snapshot (counted s r parsed_rec)] else sealed s)"
    by (rule sealing_rule)
next
  assume "\<not> has_record r"
  then show "sealed (consume size_of mi ms s r) = sealed s"
    using consume_no_record by blast
next
  show "sealed (seal_rest s) = sealed s @ (if current_chunk_data s \<noteq> [] then [snapshot s] else [])"
    by (rule seal_rest_sealed)
qed


lemma sample_result_value:
  "sample_result =
     \<lparr>file_path = ''a.xml'',
      parsed_data = Some
       [(''MainCPC'', XNone), (''Kind'', XStr ''B''),
        (''OpenNumber'', XNone), (''OpenDate'', XNone),
        (''RegisterNumber'', XNone), (''RegisterDate'', XNone),
        (''PublicationNumber'', XNone), (''PublicationDate'', XNone),
        (''ApplicationNumber'', XStr []), (''ApplicationDate'', XNone),
        (''ApplicantName'', XNone), (''InventorName'', XNone),
        (''AgentName'', XNone), (''Title'', XNone), (''Summary'', XNone),
        (''SummaryOfInvention'', XNone),
        (''BriefDescriptionOfDrawings'', XNone),
        (''DescriptionOfEmbodiments'', XNone), (''Description'', XNone),
        (''Claims'', XNone),
        (''meta'', XDict [(''convertedDate'', XStr ''2021-01-01 00:00:00''),
                          (''originalFileName'', XStr ''a.xml'')])],
      error = None,
      extraction_status =
       [(''MainCPC'', False), (''Kind'', True), (''OpenNumber'', False),
        (''OpenDate'', False), (''RegisterNumber'', False),
        (''RegisterDate'', False), (''PublicationNumber'', False),
        (''PublicationDate'', False), (''ApplicationNumber'', False),
        (''ApplicationDate'', False), (''ApplicantName'', False),
        (''InventorName'', False), (''AgentName'', False),
        (''Title'', False), (''Summary'', False),
        (''SummaryOfInvention'', False),
        (''BriefDescriptionOfDrawings'', False),
        (''DescriptionOfEmbodiments'', False), (''Description'', False),
        (''Claims'', False)],
      missing_details = Some
        \<lparr>full_file_path = ''a.xml'',
         missing_fields =
            [''MainCPC'', ''OpenNumber'', ''OpenDate'', ''RegisterNumber'',
             ''RegisterDate'', ''PublicationNumber'', ''PublicationDate'',
             ''ApplicationNumber'', ''ApplicationDate'', ''ApplicantName'',
             ''InventorName'', ''AgentName'', ''Title'', ''Summary'',
             ''SummaryOfInvention'', ''BriefDescriptionOfDrawings'',
             ''DescriptionOfEmbodiments'', ''Description'', ''Claims''],
         contextual_issues = Some [''Description_missing_when_drawings_or_embodiments_absent'']\<rparr>\<rparr>"
  by code_simp

theorem process_year_chunk_bounds_witness:
  "hd (chunks (process_year ''2021'' [sample_result, sample_result, sample_result] length 2 5 None))
     \<in> set (chunks (process_year ''2021'' [sample_result, sample_result, sample_result] length 2 5 None)) \<and>
   within_bounds length 2 (5 * 1024 * 1024 * 1024)
     (chunk_records (hd (chunks (process_year ''2021'' [sample_result, sample_result, sample_result] length 2 5 None)))) \<and>
   length (chunk_records (hd (chunks (process_year ''2021'' [sample_result, sample_result, sample_result] length 2 5 None)))) = 2 \<and>
   carries sample_result (the (parsed_data sample_result)) \<and>
   sealed (consume length 2 100
             (consume length 2 100 (consume length 2 100 initial_state sample_result) sample_result)
             sample_result)
     = [snapshot (counted (consume length 2 100 (consume length 2 100 initial_state sample_result) sample_result)
                     sample_result (the (parsed_data sample_result)))] \<and>
   \<not> has_record (failed ''b.xml'' UnknownStructure) \<and>
   sealed (consume length 2 100 initial_state (failed ''b.xml'' UnknownStructure)) = []"
proof -
  let ?out = "process_year ''2021'' [sample_result, sample_result, sample_result] length 2 5 None"
  let ?s2 = "consume length 2 100 (consume length 2 100 initial_state sample_result) sample_result"
  note inst = process_year_chunk_bounds [of "''2021''" "[sample_result, sample_result, sample_result]"
      length 2 5 None sample_result "the (parsed_data sample_result)" 100 "?s2"]
  have mem: "hd (chunks ?out) \<in> set (chunks ?out)" by code_simp
  have len: "length (chunk_records (hd (chunks ?out))) = 2" by code_simp
  have car: "carries sample_result (the (parsed_data sample_result))" by code_simp
  have full: "current_chunk_data ?s2 \<noteq> [] \<and> int (length (current_chunk_data ?s2)) + 1 > 2" by code_simp
  have none: "sealed ?s2 = []" by code_simp
  have nor: "\<not> has_record (failed ''b.xml'' UnknownStructure)" by code_simp
  from inst mem have "within_bounds length 2 (5 * 1024 * 1024 * 1024) (chunk_records (hd (chunks ?out)))"
    by blast
  moreover from inst car full none
  have "sealed (consume length 2 100 ?s2 sample_result)
          = [snapshot (counted ?s2 sample_result (the (parsed_data sample_result)))]"
    by simp
  moreover from process_year_chunk_bounds [of "''2021''" "[sample_result]" length 2 5 None
      "failed ''b.xml'' UnknownStructure" "[]" 100 initial_state] nor
  have "sealed (consume length 2 100 initial_state (failed ''b.xml'' UnknownStructure)) = []"
    by (simp add: initial_state_def)
  ultimately show ?thesis using mem len car nor by blast
qed

text \<open>
  The claim as written fails for a bound of zero items: the first record goes into the
  empty chunk, and the chunk is sealed with one record.
\<close>

theorem chunk_count_counterexample:
  "int (length (chunk_records (hd (chunks
      (process_year ''2021'' [sample_result, sample_result] length 0 5 None))))) > 0"
  by code_simp

subsection \<open>Additivity of the statistics\<close>

lemma count_of_Nil: "count_of [] f = 0"
  by (simp add: count_of_def)

lemma count_of_increment:
  "count_of (increment g counts) f = count_of counts f + (if f = g then 1 else 0)"
  by (induction counts) (auto simp: count_of_def)

lemma count_of_count_fields:
  "count_of (count_fields status counts) f = count_of counts f + hits status f"
proof (induction status arbitrary: counts)
  case Nil
  then show ?case by (simp add: hits_def)
next
  case (Cons fe status)
  obtain g extracted where fe: "fe = (g, extracted)" by (cases fe)
  show ?case
    by (auto simp: fe Cons.IH count_of_increment hits_def)
qed

lemma count_item_fields:
  "count_of (field_success_counts (count_item parsed_rec status a)) f
     = count_of (field_success_counts a) f + hits status f"
  by (simp add: count_item_def Let_def count_of_count_fields)

lemma count_item_items: "items_count (count_item parsed_rec status a) = Suc (items_count a)"
  by (simp add: count_item_def Let_def)

lemma additive_inv_initial: "additive_inv initial_state"
  by (simp add: additive_inv_def initial_state_def empty_acc_def count_of_Nil)

lemma additive_inv_consume:
  assumes "additive_inv s"
  shows "additive_inv (consume size_of mi ms s r)"
proof (cases "has_record r")
  case False
  with assms consume_no_record [OF False, of size_of mi ms s] show ?thesis
    by (simp add: additive_inv_def)
next
  case True
  then obtain parsed_rec where c: "carries r parsed_rec" by (auto simp: has_record_carries)
  show ?thesis
  proof (cases "must_seal mi ms s (size_of parsed_rec)")
    case True
    with assms show ?thesis
      by (simp add: consume_record [OF c] additive_inv_def appended_def seal_def counted_def
          count_item_fields count_item_items empty_acc_def count_of_Nil)
  next
    case False
    with assms show ?thesis
      by (simp add: consume_record [OF c] additive_inv_def appended_def counted_def
          count_item_fields count_item_items)
  qed
qed

lemma additive_inv_foldl:
  "additive_inv s \<Longrightarrow> additive_inv (foldl (consume size_of mi ms) s rs)"
  by (induction rs arbitrary: s) (simp_all add: additive_inv_consume)

lemma additive_inv_consume_all: "additive_inv (consume_all size_of mi gb rs)"
  unfolding consume_all_def by (rule additive_inv_foldl) (rule additive_inv_initial)

lemma additive_seal_rest:
  assumes "additive_inv s"
  shows "count_of (field_success_counts (year_acc (seal_rest s))) f =
           sum_list (map (\<lambda>c. count_of (field_success_counts (chunk_acc c)) f) (sealed (seal_rest s)))"
    and "items_count (year_acc (seal_rest s)) =
           sum_list (map (\<lambda>c. items_count (chunk_acc c)) (sealed (seal_rest s)))"
  using assms
  by (auto simp: additive_inv_def seal_rest_def seal_def empty_acc_def count_of_Nil)

lemma process_year_complete:
  "results \<noteq> [] \<Longrightarrow>
   chunks (process_year year results size_of mi gb None)
     = sealed (seal_rest (consume_all size_of mi gb results)) \<and>
   year_result_data (process_year year results size_of mi gb None)
     = Some (generate_stats_dict (year_acc (seal_rest (consume_all size_of mi gb results))),
             yearly_total_missing_item_reports (seal_rest (consume_all size_of mi gb results)))"
  by (simp add: process_year_def Let_def)

text \<open>
  Claim C3. In a year processed to completion, the success count of every field in the
  year-level accumulator is the sum of the success counts of that field in the
  chunk-level accumulators of the sealed chunks, the last, partial chunk included; so is
  the number of items. The chunks are those that \<open>process_year\<close> returns, and the report
  of the year is generated from that accumulator.
\<close>

theorem year_stats_additive:
  "s = seal_rest (consume_all size_of mi gb results) \<longrightarrow>
     count_of (field_success_counts (year_acc s)) f =
       sum_list (map (\<lambda>c. count_of (field_success_counts (chunk_acc c)) f) (sealed s)) \<and>
     items_count (year_acc s) = sum_list (map (\<lambda>c. items_count (chunk_acc c)) (sealed s)) \<and>
     (results \<noteq> [] \<longrightarrow>
        chunks (process_year year results size_of mi gb None) = sealed s \<and>
        year_result_data (process_year year results size_of mi gb None)
          = Some (generate_stats_dict (year_acc s), yearly_total_missing_item_reports s))"
proof (intro impI conjI)
  assume s: "s = seal_rest (consume_all size_of mi gb results)"
  show "count_of (field_success_counts (year_acc s)) f =
       sum_list (map (\<lambda>c. count_of (field_success_counts (chunk_acc c)) f) (sealed s))"
    unfolding s by (rule additive_seal_rest [OF additive_inv_consume_all])
  show "items_count (year_acc s) = sum_list (map (\<lambda>c. items_count (chunk_acc c)) (sealed s))"
    unfolding s by (rule additive_seal_rest [OF additive_inv_consume_all])
  assume "results \<noteq> []"
  then show "chunks (process_year year results size_of mi gb None) = sealed s"
    and "year_result_data (process_year year results size_of mi gb None)
          = Some (generate_stats_dict (year_acc s), yearly_total_missing_item_reports s)"
    unfolding s by (simp_all add: process_year_complete)
qed


theorem year_stats_additive_witness:
  "count_of (field_success_counts (year_acc
      (seal_rest (consume_all length 2 5 [sample_result, sample_result, sample_result])))) ''Kind'' = 3 \<and>
   sum_list (map (\<lambda>c. count_of (field_success_counts (chunk_acc c)) ''Kind'')
      (sealed (seal_rest (consume_all length 2 5 [sample_result, sample_result, sample_result])))) = 3 \<and>
   length (sealed (seal_rest (consume_all length 2 5 [sample_result, sample_result, sample_result]))) = 2 \<and>
   chunks (process_year ''2021'' [sample_result, sample_result, sample_result] length 2 5 None)
     = sealed (seal_rest (consume_all length 2 5 [sample_result, sample_result, sample_result]))"
proof -
  let ?rs = "[sample_result, sample_result, sample_result]"
  let ?s = "seal_rest (consume_all length 2 5 ?rs)"
  note inst = year_stats_additive [of ?s length 2 5 ?rs "''Kind''" "''2021''"]
  have three: "count_of (field_success_counts (year_acc ?s)) ''Kind'' = 3" by code_simp
  have two: "length (sealed ?s) = 2" by code_simp
  have ne: "?rs \<noteq> []" by simp
  from inst three
  have "sum_list (map (\<lambda>c. count_of (field_success_counts (chunk_acc c)) ''Kind'') (sealed ?s)) = 3"
    by simp
  moreover from inst ne
  have "chunks (process_year ''2021'' ?rs length 2 5 None) = sealed ?s" by blast
  ultimately show ?thesis using three two by blast
qed


section \<open>Properties of the records\<close>

lemma and_then_Inr: "and_then m f = Inr y \<longleftrightarrow> (\<exists>x. m = Inr x \<and> f x = Inr y)"
  by (cases m) (simp_all add: and_then_def)

lemma tag_section_result: "tag_section v = None \<or> text_or_empty (tag_section v) \<noteq> []"
  by (simp add: tag_section_def scrub_tables_def Let_def)

lemma choose_section_result:
  "section = None \<or> text_or_empty section \<noteq> [] \<Longrightarrow>
   choose_section section marker_section = None
     \<or> text_or_empty (choose_section section marker_section) \<noteq> []"
  by (auto simp: choose_section_def)

lemma description_fields_sections:
  "(fst (description_fields e description) = None
      \<or> text_or_empty (fst (description_fields e description)) \<noteq> []) \<and>
   (fst (snd (description_fields e description)) = None
      \<or> text_or_empty (fst (snd (description_fields e description))) \<noteq> []) \<and>
   snd (snd (description_fields e description)) = full_text description"
  unfolding description_fields_def extract_structured_description_def full_text_def Let_def
  by (simp only: fst_conv snd_conv choose_section_result [OF tag_section_result] simp_thms)

lemma opt_text_truthy: "t = None \<or> text_or_empty t \<noteq> [] \<Longrightarrow> truthy (opt_text t) \<longleftrightarrow> opt_text t \<noteq> XNone"
  by (cases t) auto


lemma parse_cn_patent_built:
  assumes "parse_cn_patent e root = Inr r"
  shows "\<exists>kind n description app_number pub_number pub_date app_date.
           format_numbers (py_repr e) (py_strptime e) app_number pub_number pub_date kind app_date = Inr n
           \<and> built_from e r kind n description"
  using assms unfolding parse_cn_patent_def Let_def and_then_Inr case_prod_beta built_from_def
  by blast

lemma format_numbers_clean:
  "format_numbers repr strptime app_number pub_number pub_date kind app_date = Inr n \<Longrightarrow>
   clean_app n = clean_application_number repr app_number"
  by (auto simp: format_numbers_def Let_def split: sum.splits bool.splits option.splits if_splits)

lemma format_numbers_registered:
  "format_numbers repr strptime app_number pub_number pub_date kind app_date = Inr n \<Longrightarrow>
   kind_in kind [''B'', ''C''] = Inr True \<Longrightarrow>
   register_number n = or_none (clean_app n) \<and> register_date n = pub_date \<and> publication_date n = pub_date"
  by (auto simp: format_numbers_def Let_def split: sum.splits bool.splits option.splits if_splits)

lemma format_numbers_utility:
  "format_numbers repr strptime app_number pub_number pub_date kind app_date = Inr n \<Longrightarrow>
   kind_in kind [''B'', ''C''] = Inr False \<Longrightarrow> kind_in kind [''U'', ''Y''] = Inr True \<Longrightarrow>
   open_number n = XNone \<and> open_date n = XNone"
  by (auto simp: format_numbers_def Let_def split: sum.splits bool.splits option.splits if_splits)


lemma register_patch:
  "format_numbers repr strptime app_number pub_number pub_date kind app_date = Inr n \<Longrightarrow>
   (if kind_in kind [''B'', ''C''] = Inr True \<and> \<not> truthy (register_date n) \<and> truthy pub_date
    then pub_date else register_date n) = register_date n"
  by (auto dest: format_numbers_registered)

lemma parse_business_built:
  assumes "parse_business e root = Inr r"
  shows "\<exists>kind n description app_number pub_number pub_date app_date.
           format_numbers (py_repr e) (py_strptime e) app_number pub_number pub_date kind app_date = Inr n
           \<and> built_from e r kind n description"
proof -
  from assms obtain main_cpc applicant_name inventor_name agent_name description n
    app_number pub_number pub_date kind app_date title summary claims
    where fn: "format_numbers (py_repr e) (py_strptime e) app_number pub_number pub_date kind app_date = Inr n"
      and r: "r = create_parsed_result main_cpc kind (open_number n) (open_date n)
              (register_number n)
              (if kind_in kind [''B'', ''C''] = Inr True \<and> \<not> truthy (register_date n) \<and> truthy pub_date
               then pub_date else register_date n)
              (publication_number n) (publication_date n) (clean_app n) app_date
              applicant_name inventor_name agent_name title summary
              (opt_text (fst (description_fields e description)))
              (opt_text (fst (snd (description_fields e description))))
              (opt_text (snd (snd (description_fields e description))))
              claims"
    unfolding parse_business_def Let_def and_then_Inr case_prod_beta by blast
  from r have "built_from e r kind n description"
    unfolding built_from_def register_patch [OF fn] by blast
  with fn show ?thesis by blast
qed

lemma fallback_record_built:
  assumes "fallback_record e root description = Inr (Some r)"
  shows "\<exists>kind n description app_number pub_number pub_date app_date.
           format_numbers (py_repr e) (py_strptime e) app_number pub_number pub_date kind app_date = Inr n
           \<and> built_from e r kind n description"
  using assms unfolding fallback_record_def Let_def and_then_Inr case_prod_beta built_from_def
  by blast

lemma process_fallback_xml_record:
  assumes "process_fallback_xml e root = Inr (Some r)"
  shows "\<exists>description. fallback_record e root description = Inr (Some r)"
proof -
  from assms obtain has_body where 1: "(if \<not> has_body then Inr None
          else and_then (py_getitem root ''application-body'')
            (\<lambda>body. and_then (py_in ''description'' body)
            (\<lambda>has_description.
               if \<not> has_description then Inr None
               else and_then (py_getitem body ''description'') (fallback_record e root))))
        = Inr (Some r)"
    unfolding process_fallback_xml_def and_then_Inr by blast
  then have "and_then (py_getitem root ''application-body'')
            (\<lambda>body. and_then (py_in ''description'' body)
            (\<lambda>has_description.
               if \<not> has_description then Inr None
               else and_then (py_getitem body ''description'') (fallback_record e root)))
        = Inr (Some r)"
    by (cases has_body) simp_all
  then obtain body has_description where 2: "(if \<not> has_description then Inr None
               else and_then (py_getitem body ''description'') (fallback_record e root))
        = Inr (Some r)"
    unfolding and_then_Inr by blast
  then have "and_then (py_getitem body ''description'') (fallback_record e root) = Inr (Some r)"
    by (cases has_description) simp_all
  then show ?thesis unfolding and_then_Inr by blast
qed

lemma process_fallback_xml_built:
  assumes "process_fallback_xml e root = Inr (Some r)"
  shows "\<exists>kind n description app_number pub_number pub_date app_date.
           format_numbers (py_repr e) (py_strptime e) app_number pub_number pub_date kind app_date = Inr n
           \<and> built_from e r kind n description"
  using process_fallback_xml_record [OF assms] fallback_record_built by blast

lemma returned_by_built:
  assumes "returned_by e root r"
  shows "\<exists>kind n description app_number pub_number pub_date app_date.
           format_numbers (py_repr e) (py_strptime e) app_number pub_number pub_date kind app_date = Inr n
           \<and> built_from e r kind n description"
  using assms parse_cn_patent_built parse_business_built process_fallback_xml_built
  unfolding returned_by_def by blast


lemma created_fields:
  "field (create_parsed_result main_cpc kind open_no open_dt register_no register_dt
       pub_number pub_date app_number app_date applicant_name inventor_name
       agent_name title summary drawing_section embodiment_section full_description_text claims) key =
   (if key = ''MainCPC'' then main_cpc
    else if key = ''Kind'' then kind
    else if key = ''OpenNumber'' then open_no
    else if key = ''OpenDate'' then open_dt
    else if key = ''RegisterNumber'' then register_no
    else if key = ''RegisterDate'' then register_dt
    else if key = ''PublicationNumber'' then pub_number
    else if key = ''PublicationDate'' then pub_date
    else if key = ''ApplicationNumber'' then app_number
    else if key = ''ApplicationDate'' then app_date
    else if key = ''ApplicantName'' then applicant_name
    else if key = ''InventorName'' then inventor_name
    else if key = ''AgentName'' then agent_name
    else if key = ''Title'' then title
    else if key = ''Summary'' then summary
    else if key = ''SummaryOfInvention'' then XNone
    else if key = ''BriefDescriptionOfDrawings'' then drawing_section
    else if key = ''DescriptionOfEmbodiments'' then embodiment_section
    else if key = ''Description''
      then (if \<not> truthy drawing_section \<or> \<not> truthy embodiment_section
            then full_description_text else XNone)
    else if key = ''Claims'' then claims
    else XNone)"
  by (simp add: create_parsed_result_def field_def)

lemma built_from_numbers:
  assumes "built_from e r kind n description"
  shows "field r ''Kind'' = kind" and "field r ''OpenNumber'' = open_number n"
    and "field r ''OpenDate'' = open_date n" and "field r ''RegisterNumber'' = register_number n"
    and "field r ''RegisterDate'' = register_date n"
    and "field r ''PublicationDate'' = publication_date n"
    and "field r ''ApplicationNumber'' = clean_app n"
    and "field r ''SummaryOfInvention'' = XNone"
  using assms unfolding built_from_def by (auto simp: created_fields)

lemma built_from_description:
  assumes "built_from e r kind n description"
  shows "field r ''BriefDescriptionOfDrawings'' = opt_text (fst (description_fields e description))"
    and "field r ''DescriptionOfEmbodiments'' = opt_text (fst (snd (description_fields e description)))"
    and "field r ''Description'' =
           (if field r ''BriefDescriptionOfDrawings'' = XNone \<or> field r ''DescriptionOfEmbodiments'' = XNone
            then opt_text (full_text description) else XNone)"
proof -
  from assms obtain main_cpc register_dt app_date applicant_name inventor_name agent_name title summary claims
    where r: "r = create_parsed_result main_cpc kind (open_number n) (open_date n)
              (register_number n) register_dt
              (publication_number n) (publication_date n) (clean_app n) app_date
              applicant_name inventor_name agent_name title summary
              (opt_text (fst (description_fields e description)))
              (opt_text (fst (snd (description_fields e description))))
              (opt_text (snd (snd (description_fields e description))))
              claims"
    unfolding built_from_def by blast
  show b: "field r ''BriefDescriptionOfDrawings'' = opt_text (fst (description_fields e description))"
    and d: "field r ''DescriptionOfEmbodiments'' = opt_text (fst (snd (description_fields e description)))"
    by (simp_all add: r created_fields)
  have t1: "truthy (opt_text (fst (description_fields e description)))
              \<longleftrightarrow> opt_text (fst (description_fields e description)) \<noteq> XNone"
    using description_fields_sections [of e description] by (intro opt_text_truthy) blast
  have t2: "truthy (opt_text (fst (snd (description_fields e description))))
              \<longleftrightarrow> opt_text (fst (snd (description_fields e description))) \<noteq> XNone"
    using description_fields_sections [of e description] by (intro opt_text_truthy) blast
  have f: "snd (snd (description_fields e description)) = full_text description"
    using description_fields_sections [of e description] by blast
  show "field r ''Description'' =
           (if field r ''BriefDescriptionOfDrawings'' = XNone \<or> field r ''DescriptionOfEmbodiments'' = XNone
            then opt_text (full_text description) else XNone)"
    unfolding b d by (simp add: r created_fields t1 t2 f)
qed

lemma built_from_stored:
  assumes "built_from e r kind n description"
    and "key \<in> {''Kind'', ''OpenNumber'', ''OpenDate'', ''RegisterNumber'', ''RegisterDate'',
                 ''PublicationDate'', ''ApplicationNumber'', ''SummaryOfInvention'',
                 ''BriefDescriptionOfDrawings'', ''DescriptionOfEmbodiments'', ''Description''}"
  shows "map_of r key = Some (field r key)"
  using assms unfolding built_from_def by (auto simp: create_parsed_result_def field_def)

lemma field_stored: "map_of r key = Some v \<Longrightarrow> field r key = v"
  by (simp add: field_def)

lemma described_sample: "process_fallback_xml plain_env described_root = Inr (Some (fallback_sample described_root))"
  by code_simp

lemma sectioned_sample: "process_fallback_xml plain_env sectioned_root = Inr (Some (fallback_sample sectioned_root))"
  by code_simp

lemma utility_sample: "process_fallback_xml plain_env utility_root = Inr (Some (fallback_sample utility_root))"
  by code_simp

lemma registered_sample: "process_fallback_xml plain_env registered_root = Inr (Some (fallback_sample registered_root))"
  by code_simp


subsection \<open>The description and its sections\<close>

text \<open>
  Claim C1, as the code has it. Every record returned by a variant parser has the three
  fields. When \<open>Description\<close> is not null, at least one of \<open>BriefDescriptionOfDrawings\<close>
  and \<open>DescriptionOfEmbodiments\<close> is null; so when both sections are present,
  \<open>Description\<close> is null.
\<close>

theorem description_only_without_sections:
  "returned_by e root r \<longrightarrow>
     (\<exists>description drawings embodiments.
        map_of r ''Description'' = Some description \<and>
        map_of r ''BriefDescriptionOfDrawings'' = Some drawings \<and>
        map_of r ''DescriptionOfEmbodiments'' = Some embodiments \<and>
        (description \<noteq> XNone \<longrightarrow> drawings = XNone \<or> embodiments = XNone) \<and>
        (drawings \<noteq> XNone \<and> embodiments \<noteq> XNone \<longrightarrow> description = XNone))"
proof
  assume "returned_by e root r"
  then obtain kind n description where b: "built_from e r kind n description"
    using returned_by_built by blast
  note d = built_from_description [OF b]
  have "map_of r ''Description'' = Some (field r ''Description'')"
    and "map_of r ''BriefDescriptionOfDrawings'' = Some (field r ''BriefDescriptionOfDrawings'')"
    and "map_of r ''DescriptionOfEmbodiments'' = Some (field r ''DescriptionOfEmbodiments'')"
    by (rule built_from_stored [OF b], simp)+
  moreover from d(3) have "field r ''Description'' \<noteq> XNone \<longrightarrow>
        field r ''BriefDescriptionOfDrawings'' = XNone \<or> field r ''DescriptionOfEmbodiments'' = XNone"
    by (auto split: if_splits)
  moreover from d(3) have "field r ''BriefDescriptionOfDrawings'' \<noteq> XNone
        \<and> field r ''DescriptionOfEmbodiments'' \<noteq> XNone \<longrightarrow> field r ''Description'' = XNone"
    by simp
  ultimately show "\<exists>description drawings embodiments.
        map_of r ''Description'' = Some description \<and>
        map_of r ''BriefDescriptionOfDrawings'' = Some drawings \<and>
        map_of r ''DescriptionOfEmbodiments'' = Some embodiments \<and>
        (description \<noteq> XNone \<longrightarrow> drawings = XNone \<or> embodiments = XNone) \<and>
        (drawings \<noteq> XNone \<and> embodiments \<noteq> XNone \<longrightarrow> description = XNone)"
    by blast
qed

theorem description_only_without_sections_witness:
  "returned_by plain_env described_root (fallback_sample described_root) \<and>
   map_of (fallback_sample described_root) ''Description''
     = Some (XStr (''A gear.'' @ newline @ ''It turns.'')) \<and>
   (map_of (fallback_sample described_root) ''BriefDescriptionOfDrawings'' = Some XNone
    \<or> map_of (fallback_sample described_root) ''DescriptionOfEmbodiments'' = Some XNone) \<and>
   returned_by plain_env sectioned_root (fallback_sample sectioned_root) \<and>
   map_of (fallback_sample sectioned_root) ''BriefDescriptionOfDrawings''
     = Some (XStr ''Fig. 1 shows a gear.'') \<and>
   map_of (fallback_sample sectioned_root) ''DescriptionOfEmbodiments''
     = Some (XStr ''The gear turns.'') \<and>
   map_of (fallback_sample sectioned_root) ''Description'' = Some XNone"
proof -
  have r1: "returned_by plain_env described_root (fallback_sample described_root)"
    by (simp add: returned_by_def described_sample)
  have r2: "returned_by plain_env sectioned_root (fallback_sample sectioned_root)"
    by (simp add: returned_by_def sectioned_sample)
  have d1: "map_of (fallback_sample described_root) ''Description''
      = Some (XStr (''A gear.'' @ newline @ ''It turns.''))"
    by code_simp
  have b2: "map_of (fallback_sample sectioned_root) ''BriefDescriptionOfDrawings''
      = Some (XStr ''Fig. 1 shows a gear.'')"
    by code_simp
  have e2: "map_of (fallback_sample sectioned_root) ''DescriptionOfEmbodiments''
      = Some (XStr ''The gear turns.'')"
    by code_simp
  from description_only_without_sections [of plain_env described_root "fallback_sample described_root"]
    r1 d1
  have "map_of (fallback_sample described_root) ''BriefDescriptionOfDrawings'' = Some XNone
    \<or> map_of (fallback_sample described_root) ''DescriptionOfEmbodiments'' = Some XNone"
    by auto
  moreover
  from description_only_without_sections [of plain_env sectioned_root "fallback_sample sectioned_root"]
    r2 b2 e2
  have "map_of (fallback_sample sectioned_root) ''Description'' = Some XNone"
    by auto
  ultimately show ?thesis using r1 r2 d1 b2 e2 by blast
qed

text \<open>
  The claim as written fails from right to left: a document whose description element
  holds text only yields a record without either section and without \<open>Description\<close>.
\<close>

theorem description_null_counterexample:
  "error sample_result = None \<and>
   map_of (the (parsed_data sample_result)) ''BriefDescriptionOfDrawings'' = Some XNone \<and>
   map_of (the (parsed_data sample_result)) ''DescriptionOfEmbodiments'' = Some XNone \<and>
   map_of (the (parsed_data sample_result)) ''Description'' = Some XNone"
  by code_simp

subsection \<open>Numbers and dates by kind\<close>

lemma clean_application_number_no_stop:
  "clean_application_number repr x = XStr s \<Longrightarrow> CHR ''.'' \<notin> set s"
  by (auto simp: clean_application_number_def Let_def split: if_splits dest: set_takeWhileD)

lemma or_none_cases:
  "or_none x = (if x = XNone \<or> x = XStr [] \<or> x = XList [] \<or> x = XDict [] then XNone else x)"
  by (cases x) (auto simp: or_none_def)

lemma registered_letters:
  assumes "k \<in> {''B'', ''b'', ''C'', ''c''}"
  shows "kind_in (XStr k) [''B'', ''C''] = Inr True"
proof -
  have "kind_in (XStr ''B'') [''B'', ''C''] = Inr True" by code_simp
  moreover have "kind_in (XStr ''b'') [''B'', ''C''] = Inr True" by code_simp
  moreover have "kind_in (XStr ''C'') [''B'', ''C''] = Inr True" by code_simp
  moreover have "kind_in (XStr ''c'') [''B'', ''C''] = Inr True" by code_simp
  ultimately show ?thesis using assms by blast
qed

lemma utility_letters:
  assumes "k \<in> {''U'', ''u'', ''Y'', ''y''}"
  shows "kind_in (XStr k) [''B'', ''C''] = Inr False \<and> kind_in (XStr k) [''U'', ''Y''] = Inr True"
proof -
  have "kind_in (XStr ''U'') [''B'', ''C''] = Inr False \<and> kind_in (XStr ''U'') [''U'', ''Y''] = Inr True"
    by code_simp
  moreover
  have "kind_in (XStr ''u'') [''B'', ''C''] = Inr False \<and> kind_in (XStr ''u'') [''U'', ''Y''] = Inr True"
    by code_simp
  moreover
  have "kind_in (XStr ''Y'') [''B'', ''C''] = Inr False \<and> kind_in (XStr ''Y'') [''U'', ''Y''] = Inr True"
    by code_simp
  moreover
  have "kind_in (XStr ''y'') [''B'', ''C''] = Inr False \<and> kind_in (XStr ''y'') [''U'', ''Y''] = Inr True"
    by code_simp
  ultimately show ?thesis using assms by blast
qed

text \<open>
  Claim C4, as the code has it. In every record returned by a variant parser whose
  \<open>Kind\<close> is B or C in either case, \<open>RegisterNumber\<close> is the \<open>ApplicationNumber\<close> of the
  record, or null when that is null or empty; \<open>RegisterDate\<close> is \<open>PublicationDate\<close>; and
  the \<open>ApplicationNumber\<close> is normalized: when it is a string it holds no full stop.
\<close>

theorem registered_kind_numbers:
  "returned_by e root r \<and> map_of r ''Kind'' = Some (XStr k) \<and> k \<in> {''B'', ''b'', ''C'', ''c''} \<longrightarrow>
     (\<exists>application_number publication_date.
        map_of r ''ApplicationNumber'' = Some application_number \<and>
        map_of r ''RegisterNumber''
          = Some (if application_number = XNone \<or> application_number = XStr []
                     \<or> application_number = XList [] \<or> application_number = XDict []
                  then XNone else application_number) \<and>
        map_of r ''PublicationDate'' = Some publication_date \<and>
        map_of r ''RegisterDate'' = Some publication_date \<and>
        (\<forall>s. application_number = XStr s \<longrightarrow> CHR ''.'' \<notin> set s))"
proof
  assume a: "returned_by e root r \<and> map_of r ''Kind'' = Some (XStr k) \<and> k \<in> {''B'', ''b'', ''C'', ''c''}"
  then obtain kind n description app_number pub_number pub_date app_date
    where fn: "format_numbers (py_repr e) (py_strptime e) app_number pub_number pub_date kind app_date = Inr n"
      and b: "built_from e r kind n description"
    using returned_by_built by blast
  note f = built_from_numbers [OF b]
  from a have "field r ''Kind'' = XStr k" by (simp add: field_stored)
  with f(1) have kind: "kind = XStr k" by simp
  from a have bc: "kind_in kind [''B'', ''C''] = Inr True"
    unfolding kind by (intro registered_letters) blast
  note reg = format_numbers_registered [OF fn bc]
  have "map_of r ''ApplicationNumber'' = Some (clean_app n)"
    using built_from_stored [OF b, of "''ApplicationNumber''"] by (simp add: f)
  moreover have "map_of r ''RegisterNumber''
          = Some (if clean_app n = XNone \<or> clean_app n = XStr []
                     \<or> clean_app n = XList [] \<or> clean_app n = XDict []
                  then XNone else clean_app n)"
    using built_from_stored [OF b, of "''RegisterNumber''"] reg
    by (simp only: f or_none_cases) simp
  moreover have "map_of r ''PublicationDate'' = Some pub_date"
    using built_from_stored [OF b, of "''PublicationDate''"] reg by (simp add: f)
  moreover have "map_of r ''RegisterDate'' = Some pub_date"
    using built_from_stored [OF b, of "''RegisterDate''"] reg by (simp add: f)
  moreover have "\<forall>s. clean_app n = XStr s \<longrightarrow> CHR ''.'' \<notin> set s"
    using clean_application_number_no_stop [of "py_repr e" app_number]
    by (simp add: format_numbers_clean [OF fn])
  ultimately show "\<exists>application_number publication_date.
        map_of r ''ApplicationNumber'' = Some application_number \<and>
        map_of r ''RegisterNumber''
          = Some (if application_number = XNone \<or> application_number = XStr []
                     \<or> application_number = XList [] \<or> application_number = XDict []
                  then XNone else application_number) \<and>
        map_of r ''PublicationDate'' = Some publication_date \<and>
        map_of r ''RegisterDate'' = Some publication_date \<and>
        (\<forall>s. application_number = XStr s \<longrightarrow> CHR ''.'' \<notin> set s)"
    by blast
qed

theorem registered_kind_numbers_witness:
  "returned_by plain_env registered_root (fallback_sample registered_root) \<and>
   map_of (fallback_sample registered_root) ''Kind'' = Some (XStr ''b'') \<and>
   ''b'' \<in> {''B'', ''b'', ''C'', ''c''} \<and>
   map_of (fallback_sample registered_root) ''ApplicationNumber'' = Some (XStr ''20212345'') \<and>
   map_of (fallback_sample registered_root) ''RegisterNumber'' = Some (XStr ''20212345'') \<and>
   map_of (fallback_sample registered_root) ''RegisterDate''
     = map_of (fallback_sample registered_root) ''PublicationDate''"
proof -
  have r: "returned_by plain_env registered_root (fallback_sample registered_root)"
    by (simp add: returned_by_def registered_sample)
  have k: "map_of (fallback_sample registered_root) ''Kind'' = Some (XStr ''b'')" by code_simp
  have u: "''b'' \<in> {''B'', ''b'', ''C'', ''c''}" by simp
  have a: "map_of (fallback_sample registered_root) ''ApplicationNumber'' = Some (XStr ''20212345'')"
    by code_simp
  from registered_kind_numbers [of plain_env registered_root "fallback_sample registered_root" "''b''"]
    r k u a
  have "map_of (fallback_sample registered_root) ''RegisterNumber'' = Some (XStr ''20212345'')
        \<and> map_of (fallback_sample registered_root) ''RegisterDate''
          = map_of (fallback_sample registered_root) ''PublicationDate''"
    by auto
  then show ?thesis using r k u a by blast
qed

text \<open>
  The claim as written fails for an application number that is empty: the record keeps
  the empty string as \<open>ApplicationNumber\<close> and reports \<open>RegisterNumber\<close> as null.
\<close>

theorem register_number_counterexample:
  "error sample_result = None \<and>
   map_of (the (parsed_data sample_result)) ''Kind'' = Some (XStr ''B'') \<and>
   map_of (the (parsed_data sample_result)) ''ApplicationNumber'' = Some (XStr []) \<and>
   map_of (the (parsed_data sample_result)) ''RegisterNumber'' = Some XNone"
  by code_simp

text \<open>
  Claim C5. In every record returned by a variant parser whose \<open>Kind\<close> is U or Y in
  either case, \<open>OpenNumber\<close> and \<open>OpenDate\<close> are null.
\<close>

theorem utility_kind_never_open:
  "returned_by e root r \<and> map_of r ''Kind'' = Some (XStr k) \<and> k \<in> {''U'', ''u'', ''Y'', ''y''} \<longrightarrow>
     map_of r ''OpenNumber'' = Some XNone \<and> map_of r ''OpenDate'' = Some XNone"
proof
  assume a: "returned_by e root r \<and> map_of r ''Kind'' = Some (XStr k) \<and> k \<in> {''U'', ''u'', ''Y'', ''y''}"
  then obtain kind n description app_number pub_number pub_date app_date
    where fn: "format_numbers (py_repr e) (py_strptime e) app_number pub_number pub_date kind app_date = Inr n"
      and b: "built_from e r kind n description"
    using returned_by_built by blast
  note f = built_from_numbers [OF b]
  from a have "field r ''Kind'' = XStr k" by (simp add: field_stored)
  with f(1) have kind: "kind = XStr k" by simp
  from a have "kind_in kind [''B'', ''C''] = Inr False \<and> kind_in kind [''U'', ''Y''] = Inr True"
    unfolding kind by (intro utility_letters) blast
  then have "open_number n = XNone \<and> open_date n = XNone"
    using format_numbers_utility [OF fn] by blast
  then show "map_of r ''OpenNumber'' = Some XNone \<and> map_of r ''OpenDate'' = Some XNone"
    using built_from_stored [OF b, of "''OpenNumber''"] built_from_stored [OF b, of "''OpenDate''"]
    by (simp add: f)
qed

theorem utility_kind_never_open_witness:
  "returned_by plain_env utility_root (fallback_sample utility_root) \<and>
   map_of (fallback_sample utility_root) ''Kind'' = Some (XStr ''y'') \<and>
   ''y'' \<in> {''U'', ''u'', ''Y'', ''y''} \<and>
   map_of (fallback_sample utility_root) ''OpenNumber'' = Some XNone \<and>
   map_of (fallback_sample utility_root) ''OpenDate'' = Some XNone"
proof -
  have r: "returned_by plain_env utility_root (fallback_sample utility_root)"
    by (simp add: returned_by_def utility_sample)
  have k: "map_of (fallback_sample utility_root) ''Kind'' = Some (XStr ''y'')" by code_simp
  have u: "''y'' \<in> {''U'', ''u'', ''Y'', ''y''}" by simp
  from utility_kind_never_open [of plain_env utility_root "fallback_sample utility_root" "''y''"] r k u
  have "map_of (fallback_sample utility_root) ''OpenNumber'' = Some XNone
        \<and> map_of (fallback_sample utility_root) ''OpenDate'' = Some XNone"
    by blast
  then show ?thesis using r k u by blast
qed

subsection \<open>The field that is always missing\<close>

lemma dispatch_returned: "dispatch e root_key root = Inr (Some parsed_rec) \<Longrightarrow> returned_by e root parsed_rec"
  unfolding dispatch_def returned_by_def
  by (auto simp: and_then_Inr split: if_splits)

lemma process_xml_file_succeeded:
  assumes "error (process_xml_file e path src) = None"
  shows "\<exists>root parsed_rec. returned_by e root parsed_rec
           \<and> process_xml_file e path src = succeeded e path parsed_rec"
  using assms dispatch_returned [of e]
  unfolding process_xml_file_def
  by (auto simp: failed_def split: source.splits xml.splits list.splits sum.splits option.splits
      prod.splits if_splits; blast)

lemma map_of_status_of:
  "key \<noteq> ''meta'' \<Longrightarrow>
   map_of (status_of parsed_rec) key
     = map_option (\<lambda>v. v \<noteq> XNone \<and> v \<noteq> XStr []) (map_of parsed_rec key)"
  unfolding status_of_def by (induction parsed_rec) auto

lemma missing_field_detected:
  "map_of status key = Some False \<Longrightarrow> key \<in> set (detected_missing_fields status)"
  unfolding detected_missing_fields_def by (force dest: map_of_SomeD)

lemma missing_details_of_listed:
  assumes "key \<in> set (detected_missing_fields status)"
  shows "\<exists>note. missing_details_of path parsed_rec status = Some note
           \<and> key \<in> set (missing_fields note) \<and> full_file_path note = path"
proof -
  from assms have "detected_missing_fields status \<noteq> []" by auto
  with assms show ?thesis by (simp add: missing_details_of_def Let_def)
qed

lemma returned_by_summary:
  assumes "returned_by e root r"
  shows "map_of r ''SummaryOfInvention'' = Some XNone"
proof -
  from assms obtain kind n description where b: "built_from e r kind n description"
    using returned_by_built by blast
  from built_from_stored [OF b, of "''SummaryOfInvention''"] built_from_numbers(8) [OF b]
  show ?thesis by simp
qed

text \<open>
  Claim C9. Every record that a variant parser returns holds the field
  \<open>SummaryOfInvention\<close> with the value null. So for every file that is parsed without
  an error the record of the result holds that null, the presence map marks the field
  as not extracted, and the result carries a missing-field note, which is for this
  file and lists the field.
\<close>

theorem summary_of_invention_always_missing:
  "(returned_by e root r \<longrightarrow> map_of r ''SummaryOfInvention'' = Some XNone) \<and>
   (error (process_xml_file e path src) = None \<longrightarrow>
      (\<exists>parsed_rec note.
         parsed_data (process_xml_file e path src) = Some parsed_rec \<and>
         map_of parsed_rec ''SummaryOfInvention'' = Some XNone \<and>
         map_of (extraction_status (process_xml_file e path src)) ''SummaryOfInvention'' = Some False \<and>
         missing_details (process_xml_file e path src) = Some note \<and>
         ''SummaryOfInvention'' \<in> set (missing_fields note) \<and>
         full_file_path note = path))"
proof (intro conjI impI)
  assume "returned_by e root r"
  then show "map_of r ''SummaryOfInvention'' = Some XNone" by (rule returned_by_summary)
next
  assume "error (process_xml_file e path src) = None"
  then obtain root0 p where p: "returned_by e root0 p"
    and res: "process_xml_file e path src = succeeded e path p"
    using process_xml_file_succeeded by blast
  let ?q = "p @ [(''meta'', XDict [(''convertedDate'', XStr (converted_date e)),
                                   (''originalFileName'', XStr (basename e path))])]"
  have q: "map_of ?q ''SummaryOfInvention'' = Some XNone"
    using returned_by_summary [OF p] by (simp add: map_add_def)
  have ne: "''SummaryOfInvention'' \<noteq> ''meta''" by simp
  have st: "map_of (status_of ?q) ''SummaryOfInvention'' = Some False"
    by (simp only: map_of_status_of [OF ne] q) simp
  from missing_details_of_listed [OF missing_field_detected [OF st], of path ?q]
  obtain m where n: "missing_details_of path ?q (status_of ?q) = Some m"
    and l: "''SummaryOfInvention'' \<in> set (missing_fields m)" and f: "full_file_path m = path"
    by blast
  have "parsed_data (succeeded e path p) = Some ?q"
    and "extraction_status (succeeded e path p) = status_of ?q"
    and "missing_details (succeeded e path p) = missing_details_of path ?q (status_of ?q)"
    by (simp_all add: succeeded_def Let_def)
  with q st n l f
  show "\<exists>parsed_rec note.
         parsed_data (process_xml_file e path src) = Some parsed_rec \<and>
         map_of parsed_rec ''SummaryOfInvention'' = Some XNone \<and>
         map_of (extraction_status (process_xml_file e path src)) ''SummaryOfInvention'' = Some False \<and>
         missing_details (process_xml_file e path src) = Some note \<and>
         ''SummaryOfInvention'' \<in> set (missing_fields note) \<and>
         full_file_path note = path"
    unfolding res by simp
qed

theorem summary_of_invention_always_missing_witness:
  "returned_by plain_env utility_root (fallback_sample utility_root) \<and>
   map_of (fallback_sample utility_root) ''SummaryOfInvention'' = Some XNone \<and>
   error (process_xml_file plain_env ''a.xml'' (Document sample_document)) = None \<and>
   map_of (extraction_status (process_xml_file plain_env ''a.xml'' (Document sample_document)))
     ''SummaryOfInvention'' = Some False \<and>
   (\<exists>note. missing_details (process_xml_file plain_env ''a.xml'' (Document sample_document)) = Some note
      \<and> ''SummaryOfInvention'' \<in> set (missing_fields note)
      \<and> full_file_path note = ''a.xml'')"
proof -
  have r: "returned_by plain_env utility_root (fallback_sample utility_root)"
    by (simp add: returned_by_def utility_sample)
  have ok: "error (process_xml_file plain_env ''a.xml'' (Document sample_document)) = None"
    by code_simp
  note inst = summary_of_invention_always_missing
      [of plain_env utility_root "fallback_sample utility_root" "''a.xml''" "Document sample_document"]
  from inst r have "map_of (fallback_sample utility_root) ''SummaryOfInvention'' = Some XNone"
    by blast
  moreover from inst ok
  have "map_of (extraction_status (process_xml_file plain_env ''a.xml'' (Document sample_document)))
     ''SummaryOfInvention'' = Some False \<and>
   (\<exists>note. missing_details (process_xml_file plain_env ''a.xml'' (Document sample_document)) = Some note
      \<and> ''SummaryOfInvention'' \<in> set (missing_fields note)
      \<and> full_file_path note = ''a.xml'')"
    by blast
  ultimately show ?thesis using r ok by blast
qed

subsection \<open>The record that seals a chunk\<close>

lemma consume_sealing:
  assumes "carries r parsed_rec" and "must_seal mi ms s (size_of parsed_rec)"
  shows "sealed (consume size_of mi ms s r) = sealed s @ [snapshot (counted s r parsed_rec)]"
    and "current_chunk_data (consume size_of mi ms s r) = [parsed_rec]"
    and "current_chunk_acc (consume size_of mi ms s r) = empty_acc"
    and "chunk_count (consume size_of mi ms s r) = Suc (chunk_count s)"
  using assms(2)
  by (simp_all add: consume_record [OF assms(1)] appended_def seal_snapshot counted_def)

lemma consume_appending:
  assumes "carries r parsed_rec" and "\<not> must_seal mi ms s (size_of parsed_rec)"
  shows "sealed (consume size_of mi ms s r) = sealed s"
    and "current_chunk_data (consume size_of mi ms s r) = current_chunk_data s @ [parsed_rec]"
    and "current_chunk_acc (consume size_of mi ms s r)
           = count_item parsed_rec (extraction_status r) (current_chunk_acc s)"
    and "chunk_count (consume size_of mi ms s r) = chunk_count s"
  using assms(2)
  by (simp_all add: consume_record [OF assms(1)] appended_def counted_def)

lemma consume_chunk_count:
  "\<not> has_record r \<Longrightarrow> chunk_count (consume size_of mi ms s r) = chunk_count s"
  using result_cases [of r]
  by (auto simp: has_record_carries consume_failure consume_empty)

text \<open>What the snapshot of the counted state holds, field by field.\<close>

lemma snapshot_counted:
  "chunk_no (snapshot (counted s r parsed_rec)) = Suc (chunk_count s)"
  "chunk_records (snapshot (counted s r parsed_rec)) = current_chunk_data s"
  "chunk_acc (snapshot (counted s r parsed_rec))
     = count_item parsed_rec (extraction_status r) (current_chunk_acc s)"
  "chunk_missing (snapshot (counted s r parsed_rec))
     = current_chunk_missing_details_list s @ note_list (missing_details r)"
  by (simp_all add: snapshot_def counted_def)

lemma note_list_cases:
  "note_list m = (case m of None \<Rightarrow> [] | Some note \<Rightarrow> [note])"
  by (cases m) simp_all

lemma count_item_special:
  "total_A_items (count_item parsed_rec status a)
     = total_A_items a + (if map_of parsed_rec ''Kind'' = Some (XStr ''A'') then 1 else 0)"
  "OpenNumber_success (count_item parsed_rec status a)
     = OpenNumber_success a
       + (if map_of parsed_rec ''Kind'' = Some (XStr ''A'') \<and> map_of status ''OpenNumber'' = Some True
          then 1 else 0)"
  "OpenDate_success (count_item parsed_rec status a)
     = OpenDate_success a
       + (if map_of parsed_rec ''Kind'' = Some (XStr ''A'') \<and> map_of status ''OpenDate'' = Some True
          then 1 else 0)"
  by (auto simp: count_item_def Let_def field_def status_get_def split: option.splits)

lemma truthy_absent: "\<not> truthy (field parsed_rec key) \<longleftrightarrow> absent parsed_rec key"
proof (cases "map_of parsed_rec key")
  case None
  then show ?thesis by (simp add: field_def absent_def)
next
  case (Some v)
  then show ?thesis by (cases v) (simp_all add: field_def absent_def)
qed

lemma count_item_fallback:
  "total_partial_missing_items (count_item parsed_rec status a)
     = total_partial_missing_items a
       + (if absent parsed_rec ''BriefDescriptionOfDrawings''
             \<or> absent parsed_rec ''DescriptionOfEmbodiments'' then 1 else 0)"
  "Description_success_when_partial_missing (count_item parsed_rec status a)
     = Description_success_when_partial_missing a
       + (if (absent parsed_rec ''BriefDescriptionOfDrawings''
               \<or> absent parsed_rec ''DescriptionOfEmbodiments'')
             \<and> map_of status ''Description'' = Some True
          then 1 else 0)"
  by (auto simp: count_item_def Let_def truthy_absent status_get_def split: option.splits)

subsubsection \<open>The numbers of the chunks\<close>

lemma numbered_inv_initial: "numbered_inv initial_state"
  by (simp add: numbered_inv_def initial_state_def)

lemma numbered_inv_consume:
  assumes "numbered_inv s"
  shows "numbered_inv (consume size_of mi ms s r)"
proof (cases "has_record r")
  case False
  with assms consume_no_record [OF False, of size_of mi ms s]
    consume_chunk_count [OF False, of size_of mi ms s]
  show ?thesis by (simp add: numbered_inv_def)
next
  case True
  then obtain parsed_rec where c: "carries r parsed_rec" by (auto simp: has_record_carries)
  show ?thesis
  proof (cases "must_seal mi ms s (size_of parsed_rec)")
    case True
    from assms show ?thesis
      by (auto simp: numbered_inv_def consume_sealing [of r parsed_rec mi ms s size_of, OF c True] snapshot_counted nth_append
          less_Suc_eq)
  next
    case False
    from assms show ?thesis
      by (simp add: numbered_inv_def consume_appending [of r parsed_rec mi ms s size_of, OF c False])
  qed
qed

lemma numbered_inv_foldl:
  "numbered_inv s \<Longrightarrow> numbered_inv (foldl (consume size_of mi ms) s rs)"
  by (induction rs arbitrary: s) (simp_all add: numbered_inv_consume)

lemma numbered_inv_consume_all: "numbered_inv (consume_all size_of mi gb rs)"
  unfolding consume_all_def by (rule numbered_inv_foldl) (rule numbered_inv_initial)

lemma numbered_inv_seal_rest: "numbered_inv s \<Longrightarrow> numbered_inv (seal_rest s)"
  by (auto simp: numbered_inv_def seal_rest_def seal_snapshot snapshot_def nth_append less_Suc_eq)

subsubsection \<open>The records and the count of a later chunk\<close>

lemma later_chunk_inv_initial: "later_chunk_inv initial_state"
  by (simp add: later_chunk_inv_def initial_state_def)

lemma later_chunk_inv_consume:
  assumes "later_chunk_inv s"
  shows "later_chunk_inv (consume size_of mi ms s r)"
proof (cases "has_record r")
  case False
  with assms consume_no_record [OF False, of size_of mi ms s]
  show ?thesis by (simp add: later_chunk_inv_def)
next
  case True
  then obtain parsed_rec where c: "carries r parsed_rec" by (auto simp: has_record_carries)
  show ?thesis
  proof (cases "must_seal mi ms s (size_of parsed_rec)")
    case True
    from assms show ?thesis
      by (auto simp: later_chunk_inv_def consume_sealing [of r parsed_rec mi ms s size_of, OF c True] snapshot_counted nth_append
          count_item_items empty_acc_def less_Suc_eq)
  next
    case False
    from assms show ?thesis
      by (simp add: later_chunk_inv_def consume_appending [of r parsed_rec mi ms s size_of, OF c False] count_item_items)
  qed
qed

lemma later_chunk_inv_foldl:
  "later_chunk_inv s \<Longrightarrow> later_chunk_inv (foldl (consume size_of mi ms) s rs)"
  by (induction rs arbitrary: s) (simp_all add: later_chunk_inv_consume)

lemma later_chunk_inv_consume_all: "later_chunk_inv (consume_all size_of mi gb rs)"
  unfolding consume_all_def by (rule later_chunk_inv_foldl) (rule later_chunk_inv_initial)

lemma first_chunk_inv_initial: "first_chunk_inv initial_state"
  by (simp add: first_chunk_inv_def initial_state_def empty_acc_def)

lemma first_chunk_inv_consume:
  assumes "first_chunk_inv s"
  shows "first_chunk_inv (consume size_of mi ms s r)"
proof (cases "has_record r")
  case False
  with assms consume_no_record [OF False, of size_of mi ms s] show ?thesis
    by (simp add: first_chunk_inv_def)
next
  case True
  then obtain parsed_rec where c: "carries r parsed_rec" by (auto simp: has_record_carries)
  show ?thesis
  proof (cases "must_seal mi ms s (size_of parsed_rec)")
    case True
    with assms show ?thesis
      by (cases "sealed s")
         (simp_all add: consume_record [OF c] first_chunk_inv_def appended_def seal_def counted_def
            count_item_items)
  next
    case False
    with assms show ?thesis
      by (simp add: consume_record [OF c] first_chunk_inv_def appended_def counted_def
          count_item_items)
  qed
qed

lemma first_chunk_inv_foldl:
  "first_chunk_inv s \<Longrightarrow> first_chunk_inv (foldl (consume size_of mi ms) s rs)"
  by (induction rs arbitrary: s) (simp_all add: first_chunk_inv_consume)

lemma first_chunk_inv_consume_all: "first_chunk_inv (consume_all size_of mi gb rs)"
  unfolding consume_all_def by (rule first_chunk_inv_foldl) (rule first_chunk_inv_initial)

subsubsection \<open>Where the sealing record goes\<close>

lemma sealed_consume_grows: "prefix (sealed s) (sealed (consume size_of mi ms s r))"
proof (cases "has_record r")
  case False
  then show ?thesis using consume_no_record [OF False, of size_of mi ms s] by simp
next
  case True
  then obtain parsed_rec where "carries r parsed_rec" by (auto simp: has_record_carries)
  then show ?thesis by (simp add: sealing_rule)
qed

lemma sealed_foldl_grows: "prefix (sealed s) (sealed (foldl (consume size_of mi ms) s rs))"
proof (induction rs arbitrary: s)
  case Nil
  then show ?case by simp
next
  case (Cons r rs)
  have "prefix (sealed s) (sealed (consume size_of mi ms s r))" by (rule sealed_consume_grows)
  also have "prefix \<dots> (sealed (foldl (consume size_of mi ms) (consume size_of mi ms s r) rs))"
    by (rule Cons.IH)
  finally show ?case by simp
qed

lemma prefix_nth: "prefix xs ys \<Longrightarrow> i < length xs \<Longrightarrow> ys ! i = xs ! i"
  by (auto simp: prefix_def nth_append)

lemma opened_by_consume:
  assumes "opened_by parsed_rec m s"
  shows "opened_by parsed_rec m (consume size_of mi ms s r)"
proof (cases "length (sealed s) = m")
  case False
  with assms have m: "m < length (sealed s)" and ne: "chunk_records (sealed s ! m) \<noteq> []"
    and hd: "hd (chunk_records (sealed s ! m)) = parsed_rec"
    by (simp_all add: opened_by_def)
  have p: "prefix (sealed s) (sealed (consume size_of mi ms s r))" by (rule sealed_consume_grows)
  then have "length (sealed s) \<le> length (sealed (consume size_of mi ms s r))"
    by (rule prefix_length_le)
  moreover have "sealed (consume size_of mi ms s r) ! m = sealed s ! m"
    using p m by (rule prefix_nth)
  ultimately show ?thesis using m ne hd by (simp add: opened_by_def)
next
  case active: True
  with assms have ne: "current_chunk_data s \<noteq> []" and hd: "hd (current_chunk_data s) = parsed_rec"
    by (simp_all add: opened_by_def)
  show ?thesis
  proof (cases "has_record r")
    case False
    with consume_no_record [OF False, of size_of mi ms s] active ne hd
    show ?thesis by (simp add: opened_by_def)
  next
    case True
    then obtain q where c: "carries r q" by (auto simp: has_record_carries)
    show ?thesis
    proof (cases "must_seal mi ms s (size_of q)")
      case True
      with active ne hd show ?thesis
        by (simp add: opened_by_def consume_sealing [of r q mi ms s size_of, OF c True] snapshot_counted nth_append)
    next
      case False
      with active ne hd show ?thesis
        by (simp add: opened_by_def consume_appending [of r q mi ms s size_of, OF c False])
    qed
  qed
qed

lemma opened_by_foldl:
  "opened_by parsed_rec m s \<Longrightarrow> opened_by parsed_rec m (foldl (consume size_of mi ms) s rs)"
  by (induction rs arbitrary: s) (simp_all add: opened_by_consume)

lemma opened_by_seal_rest:
  assumes "opened_by parsed_rec m s"
  shows "m < length (sealed (seal_rest s)) \<and> chunk_records (sealed (seal_rest s) ! m) \<noteq> []
         \<and> hd (chunk_records (sealed (seal_rest s) ! m)) = parsed_rec"
  using assms
  by (auto simp: opened_by_def seal_rest_sealed snapshot_def nth_append split: if_splits)

lemma chunk_files_mem:
  assumes "c \<in> set (chunks (process_year year results size_of mi gb None))"
  shows "set (chunk_files year c) \<subseteq> set (files (process_year year results size_of mi gb None))"
  using assms by (auto simp: files_of_process_year)

lemma chunk_files_records:
  "(year @ ''_chunk_'' @ str_nat (chunk_no c) @ ''.json'', Records (chunk_records c))
     \<in> set (chunk_files year c)"
  "(year @ ''_chunk_'' @ str_nat (chunk_no c) @ ''_extraction_stats_report.json'',
      Stats (generate_stats_dict (chunk_acc c))) \<in> set (chunk_files year c)"
  "chunk_missing c \<noteq> [] \<Longrightarrow>
   (year @ ''_chunk_'' @ str_nat (chunk_no c) @ ''_missing_items_report.json'',
      Missing (chunk_missing c)) \<in> set (chunk_files year c)"
  by (simp_all add: chunk_files_def Let_def)

text \<open>The run of a year around a record that seals the active chunk.\<close>

lemma sealing_run:
  assumes c: "carries r parsed_rec"
    and s: "s = consume_all size_of mi gb earlier"
    and ms: "must_seal mi (gb * 1024 * 1024 * 1024) s (size_of parsed_rec)"
  shows "Suc (length (sealed s))
           < length (chunks (process_year year (earlier @ r # later) size_of mi gb None))"
    and "chunks (process_year year (earlier @ r # later) size_of mi gb None) ! length (sealed s)
           = snapshot (counted s r parsed_rec)"
    and "chunk_records (chunks (process_year year (earlier @ r # later) size_of mi gb None)
           ! Suc (length (sealed s))) \<noteq> []"
    and "hd (chunk_records (chunks (process_year year (earlier @ r # later) size_of mi gb None)
           ! Suc (length (sealed s)))) = parsed_rec"
    and "\<forall>i < length (chunks (process_year year (earlier @ r # later) size_of mi gb None)).
           chunk_no (chunks (process_year year (earlier @ r # later) size_of mi gb None) ! i) = Suc i"
proof -
  let ?ms = "gb * 1024 * 1024 * 1024"
  let ?t = "consume size_of mi ?ms s r"
  let ?u = "foldl (consume size_of mi ?ms) ?t later"
  let ?out = "process_year year (earlier @ r # later) size_of mi gb None"
  have all: "consume_all size_of mi gb (earlier @ r # later) = ?u"
    by (simp add: consume_all_def s)
  have ch: "chunks ?out = sealed (seal_rest ?u)"
    by (simp add: chunks_of_process_year all)
  have t_sealed: "sealed ?t = sealed s @ [snapshot (counted s r parsed_rec)]"
    and t_data: "current_chunk_data ?t = [parsed_rec]"
    using consume_sealing [of r parsed_rec mi "gb * 1024 * 1024 * 1024" s size_of, OF c ms] by simp_all
  have "opened_by parsed_rec (Suc (length (sealed s))) ?t"
    unfolding opened_by_def t_sealed t_data by simp
  then have "opened_by parsed_rec (Suc (length (sealed s))) ?u" by (rule opened_by_foldl)
  then have o: "Suc (length (sealed s)) < length (sealed (seal_rest ?u))
      \<and> chunk_records (sealed (seal_rest ?u) ! Suc (length (sealed s))) \<noteq> []
      \<and> hd (chunk_records (sealed (seal_rest ?u) ! Suc (length (sealed s)))) = parsed_rec"
    by (rule opened_by_seal_rest)
  from o show "Suc (length (sealed s)) < length (chunks ?out)" by (simp add: ch)
  from o show "chunk_records (chunks ?out ! Suc (length (sealed s))) \<noteq> []" by (simp add: ch)
  from o show "hd (chunk_records (chunks ?out ! Suc (length (sealed s)))) = parsed_rec"
    by (simp add: ch)
  have len: "length (sealed s) < length (sealed ?t)" unfolding t_sealed by simp
  have "prefix (sealed ?t) (sealed ?u)" by (rule sealed_foldl_grows)
  also have "prefix (sealed ?u) (sealed (seal_rest ?u))" by (simp add: seal_rest_sealed)
  finally have "sealed (seal_rest ?u) ! length (sealed s) = sealed ?t ! length (sealed s)"
    by (rule prefix_nth) (rule len)
  also have "sealed ?t ! length (sealed s) = snapshot (counted s r parsed_rec)"
    by (simp only: t_sealed nth_append_length)
  finally show "chunks ?out ! length (sealed s) = snapshot (counted s r parsed_rec)"
    by (simp only: ch)
  have "numbered_inv (seal_rest ?u)"
    unfolding all [symmetric] by (rule numbered_inv_seal_rest [OF numbered_inv_consume_all])
  then show "\<forall>i < length (chunks ?out). chunk_no (chunks ?out ! i) = Suc i"
    by (simp add: ch numbered_inv_def)
qed

text \<open>
  Claim C10. In the run of a year, take a record that arrives when the active chunk is
  not empty and is full, by the number of its records or because the record would
  take it over the size bound. With \<open>n\<close> chunks sealed before, the chunk then sealed is
  chunk \<open>n + 1\<close>. Its file of records holds the records collected before and not this
  one, while its statistics count this record: the item count is one higher, every
  field that the record's presence map marks is counted once more, and so are the
  counters for kind A and for a missing description section; its list of
  missing-field notes ends with the note of this record, if it has one. The record
  itself is the first record of chunk \<open>n + 2\<close>, in the file of that chunk. So the
  statistics of the first chunk of a year report one item more than its file of
  records holds; a later chunk that a record seals reports as many as it holds,
  because its own first record was counted in the chunk before.
\<close>

theorem sealing_record_counted_in_sealed_chunk:
  assumes "carries r parsed_rec"
    and "s = consume_all size_of mi gb earlier"
    and "current_chunk_data s \<noteq> []"
    and "mi \<le> int (length (current_chunk_data s))
         \<or> gb * 1024 * 1024 * 1024 < int (current_size_bytes s + size_of parsed_rec)"
    and "out = process_year year (earlier @ r # later) size_of mi gb None"
    and "n = length (sealed s)"
  shows "Suc n < length (chunks out) \<and>
    chunk_no (chunks out ! n) = n + 1 \<and>
    chunk_no (chunks out ! Suc n) = n + 2 \<and>
    chunk_records (chunks out ! n) = current_chunk_data s \<and>
    (\<exists>more. chunk_records (chunks out ! Suc n) = parsed_rec # more) \<and>
    items_count (chunk_acc (chunks out ! n)) = items_count (current_chunk_acc s) + 1 \<and>
    (\<forall>f. count_of (field_success_counts (chunk_acc (chunks out ! n))) f
          = count_of (field_success_counts (current_chunk_acc s)) f + hits (extraction_status r) f) \<and>
    total_A_items (chunk_acc (chunks out ! n))
      = total_A_items (current_chunk_acc s)
        + (if map_of parsed_rec ''Kind'' = Some (XStr ''A'') then 1 else 0) \<and>
    OpenNumber_success (chunk_acc (chunks out ! n))
      = OpenNumber_success (current_chunk_acc s)
        + (if map_of parsed_rec ''Kind'' = Some (XStr ''A'')
              \<and> map_of (extraction_status r) ''OpenNumber'' = Some True then 1 else 0) \<and>
    OpenDate_success (chunk_acc (chunks out ! n))
      = OpenDate_success (current_chunk_acc s)
        + (if map_of parsed_rec ''Kind'' = Some (XStr ''A'')
              \<and> map_of (extraction_status r) ''OpenDate'' = Some True then 1 else 0) \<and>
    total_partial_missing_items (chunk_acc (chunks out ! n))
      = total_partial_missing_items (current_chunk_acc s)
        + (if absent parsed_rec ''BriefDescriptionOfDrawings''
              \<or> absent parsed_rec ''DescriptionOfEmbodiments'' then 1 else 0) \<and>
    Description_success_when_partial_missing (chunk_acc (chunks out ! n))
      = Description_success_when_partial_missing (current_chunk_acc s)
        + (if (absent parsed_rec ''BriefDescriptionOfDrawings''
                \<or> absent parsed_rec ''DescriptionOfEmbodiments'')
              \<and> map_of (extraction_status r) ''Description'' = Some True then 1 else 0) \<and>
    chunk_missing (chunks out ! n)
      = current_chunk_missing_details_list s
        @ (case missing_details r of None \<Rightarrow> [] | Some note \<Rightarrow> [note]) \<and>
    (year @ ''_chunk_'' @ str_nat (n + 1) @ ''.json'', Records (current_chunk_data s))
      \<in> set (files out) \<and>
    (year @ ''_chunk_'' @ str_nat (n + 1) @ ''_extraction_stats_report.json'',
       Stats (generate_stats_dict (chunk_acc (chunks out ! n)))) \<in> set (files out) \<and>
    (chunk_missing (chunks out ! n) \<noteq> [] \<longrightarrow>
       (year @ ''_chunk_'' @ str_nat (n + 1) @ ''_missing_items_report.json'',
          Missing (chunk_missing (chunks out ! n))) \<in> set (files out)) \<and>
    (\<exists>more. (year @ ''_chunk_'' @ str_nat (n + 2) @ ''.json'', Records (parsed_rec # more))
       \<in> set (files out)) \<and>
    (n = 0 \<longrightarrow> total_processed_items (generate_stats_dict (chunk_acc (chunks out ! n)))
                 = length (chunk_records (chunks out ! n)) + 1) \<and>
    (0 < n \<longrightarrow> total_processed_items (generate_stats_dict (chunk_acc (chunks out ! n)))
                 = length (chunk_records (chunks out ! n)))"
proof -
  let ?ms = "gb * 1024 * 1024 * 1024"
  let ?c = "chunks out ! n"
  let ?d = "chunks out ! Suc n"
  have ms: "must_seal mi ?ms s (size_of parsed_rec)"
    unfolding must_seal_def using assms(3,4) by (rule conjI)
  note run = sealing_run [of r parsed_rec s size_of mi gb earlier year later,
      OF assms(1) assms(2) ms, folded assms(5) assms(6)]
  have lt: "Suc n < length (chunks out)" by (rule run(1))
  have c: "?c = snapshot (counted s r parsed_rec)" by (rule run(2))
  have d_ne: "chunk_records ?d \<noteq> []" by (rule run(3))
  have d_hd: "hd (chunk_records ?d) = parsed_rec" by (rule run(4))
  have no: "\<forall>i < length (chunks out). chunk_no (chunks out ! i) = Suc i" by (rule run(5))
  from d_ne d_hd have d: "\<exists>more. chunk_records ?d = parsed_rec # more"
    by (cases "chunk_records ?d") simp_all
  have rec: "chunk_records ?c = current_chunk_data s" by (simp add: c snapshot_counted)
  have acc: "chunk_acc ?c = count_item parsed_rec (extraction_status r) (current_chunk_acc s)"
    by (simp add: c snapshot_counted)
  have mis: "chunk_missing ?c = current_chunk_missing_details_list s
        @ (case missing_details r of None \<Rightarrow> [] | Some note \<Rightarrow> [note])"
    by (simp add: c snapshot_counted note_list_cases)
  from no lt have no_c: "chunk_no ?c = n + 1" and no_d: "chunk_no ?d = n + 2" by simp_all
  from lt have c_in: "?c \<in> set (chunks out)" and d_in: "?d \<in> set (chunks out)" by simp_all
  have c_files: "set (chunk_files year ?c) \<subseteq> set (files out)"
    using c_in unfolding assms(5) by (rule chunk_files_mem)
  have d_files: "set (chunk_files year ?d) \<subseteq> set (files out)"
    using d_in unfolding assms(5) by (rule chunk_files_mem)
  have f1: "(year @ ''_chunk_'' @ str_nat (n + 1) @ ''.json'', Records (current_chunk_data s))
      \<in> set (files out)"
    using chunk_files_records(1) [of year ?c] c_files by (auto simp only: no_c rec)
  have f2: "(year @ ''_chunk_'' @ str_nat (n + 1) @ ''_extraction_stats_report.json'',
       Stats (generate_stats_dict (chunk_acc ?c))) \<in> set (files out)"
    using chunk_files_records(2) [of year ?c] c_files by (auto simp only: no_c)
  have f3: "chunk_missing ?c \<noteq> [] \<longrightarrow>
       (year @ ''_chunk_'' @ str_nat (n + 1) @ ''_missing_items_report.json'',
          Missing (chunk_missing ?c)) \<in> set (files out)"
    using chunk_files_records(3) [of ?c year] c_files by (auto simp only: no_c)
  have f4: "\<exists>more. (year @ ''_chunk_'' @ str_nat (n + 2) @ ''.json'', Records (parsed_rec # more))
       \<in> set (files out)"
  proof -
    from d obtain more where more: "chunk_records ?d = parsed_rec # more" by blast
    have "(year @ ''_chunk_'' @ str_nat (n + 2) @ ''.json'', Records (parsed_rec # more))
       \<in> set (files out)"
      using chunk_files_records(1) [of year ?d] d_files by (auto simp only: no_d more)
    then show ?thesis by blast
  qed
  have first: "first_chunk_inv s" unfolding assms(2) by (rule first_chunk_inv_consume_all)
  have later: "later_chunk_inv s" unfolding assms(2) by (rule later_chunk_inv_consume_all)
  have items: "items_count (chunk_acc ?c) = Suc (items_count (current_chunk_acc s))"
    by (simp add: acc count_item_items)
  have total: "total_processed_items (generate_stats_dict (chunk_acc ?c)) = items_count (chunk_acc ?c)"
    by (simp add: generate_stats_dict_def)
  have e0: "n = 0 \<longrightarrow> total_processed_items (generate_stats_dict (chunk_acc ?c))
                 = length (chunk_records ?c) + 1"
  proof
    assume "n = 0"
    with assms(6) have "sealed s = []" by simp
    with first have "items_count (current_chunk_acc s) = length (current_chunk_data s)"
      by (simp add: first_chunk_inv_def)
    then show "total_processed_items (generate_stats_dict (chunk_acc ?c))
                 = length (chunk_records ?c) + 1"
      by (simp only: total items rec)
  qed
  have e1: "0 < n \<longrightarrow> total_processed_items (generate_stats_dict (chunk_acc ?c))
                 = length (chunk_records ?c)"
  proof
    assume "0 < n"
    with assms(6) have "sealed s \<noteq> []" by auto
    with later have "length (current_chunk_data s) = Suc (items_count (current_chunk_acc s))"
      by (simp add: later_chunk_inv_def)
    then show "total_processed_items (generate_stats_dict (chunk_acc ?c))
                 = length (chunk_records ?c)"
      by (simp only: total items rec)
  qed
  show ?thesis
    apply (intro conjI)
    subgoal by (rule lt)
    subgoal by (rule no_c)
    subgoal by (rule no_d)
    subgoal by (rule rec)
    subgoal by (rule d)
    subgoal by (simp add: acc count_item_items)
    subgoal by (simp add: acc count_item_fields)
    subgoal by (simp only: acc count_item_special)
    subgoal by (simp only: acc count_item_special)
    subgoal by (simp only: acc count_item_special)
    subgoal by (simp only: acc count_item_fallback)
    subgoal by (simp only: acc count_item_fallback)
    subgoal by (rule mis)
    subgoal by (rule f1)
    subgoal by (rule f2)
    subgoal by (rule f3)
    subgoal by (rule f4)
    subgoal by (rule e0)
    subgoal by (rule e1)
    done
qed

theorem sealing_record_counted_in_sealed_chunk_witness:
  "carries sample_result (the (parsed_data sample_result)) \<and>
   current_chunk_data (consume_all length 2 5 [sample_result, sample_result]) \<noteq> [] \<and>
   2 \<le> int (length (current_chunk_data (consume_all length 2 5 [sample_result, sample_result]))) \<and>
   0 = length (sealed (consume_all length 2 5 [sample_result, sample_result])) \<and>
   length (chunk_records (chunks (process_year ''2021''
       ([sample_result, sample_result] @ sample_result # [sample_result]) length 2 5 None) ! 0)) = 2 \<and>
   items_count (chunk_acc (chunks (process_year ''2021''
       ([sample_result, sample_result] @ sample_result # [sample_result]) length 2 5 None) ! 0)) = 3 \<and>
   count_of (field_success_counts (chunk_acc (chunks (process_year ''2021''
       ([sample_result, sample_result] @ sample_result # [sample_result]) length 2 5 None) ! 0)))
     ''Kind'' = 3 \<and>
   length (chunk_missing (chunks (process_year ''2021''
       ([sample_result, sample_result] @ sample_result # [sample_result]) length 2 5 None) ! 0)) = 3 \<and>
   (\<exists>more. (''2021_chunk_2.json'', Records (the (parsed_data sample_result) # more))
      \<in> set (files (process_year ''2021''
           ([sample_result, sample_result] @ sample_result # [sample_result]) length 2 5 None)))"
proof -
  let ?p = "the (parsed_data sample_result)"
  let ?s = "consume_all length 2 5 [sample_result, sample_result]"
  let ?out = "process_year ''2021'' ([sample_result, sample_result] @ sample_result # [sample_result])
                length 2 5 None"
  have car: "carries sample_result ?p" by code_simp
  have ne: "current_chunk_data ?s \<noteq> []" by code_simp
  have full: "2 \<le> int (length (current_chunk_data ?s))" by code_simp
  have n: "0 = length (sealed ?s)" by code_simp
  have items: "items_count (current_chunk_acc ?s) = 2" by code_simp
  have kind: "count_of (field_success_counts (current_chunk_acc ?s)) ''Kind'' = 2" by code_simp
  have hit: "hits (extraction_status sample_result) ''Kind'' = 1" by code_simp
  have len: "length (current_chunk_data ?s) = 2" by code_simp
  have listed: "length (current_chunk_missing_details_list ?s) = 2" by code_simp
  have noted: "missing_details sample_result \<noteq> None" by code_simp
  have two: "str_nat (0 + 2) = ''2''" by code_simp
  note inst = sealing_record_counted_in_sealed_chunk
      [of sample_result ?p ?s length 2 5 "[sample_result, sample_result]" ?out "''2021''"
          "[sample_result]" 0, OF car refl ne disjI1 [OF full] refl n]
  note records = inst [THEN conjunct2, THEN conjunct2, THEN conjunct2, THEN conjunct1]
  note counted_items = inst [THEN conjunct2, THEN conjunct2, THEN conjunct2, THEN conjunct2, THEN conjunct2, THEN conjunct1]
  note counted_fields = inst [THEN conjunct2, THEN conjunct2, THEN conjunct2, THEN conjunct2, THEN conjunct2, THEN conjunct2, THEN conjunct1]
  note notes_kept = inst [THEN conjunct2, THEN conjunct2, THEN conjunct2, THEN conjunct2, THEN conjunct2, THEN conjunct2, THEN conjunct2, THEN conjunct2, THEN conjunct2, THEN conjunct2, THEN conjunct2, THEN conjunct2, THEN conjunct1]
  note next_file = inst [THEN conjunct2, THEN conjunct2, THEN conjunct2, THEN conjunct2, THEN conjunct2, THEN conjunct2, THEN conjunct2, THEN conjunct2, THEN conjunct2, THEN conjunct2, THEN conjunct2, THEN conjunct2, THEN conjunct2, THEN conjunct2, THEN conjunct2, THEN conjunct2, THEN conjunct1]
  from records have "length (chunk_records (chunks ?out ! 0)) = 2" by (simp only: len)
  moreover from counted_items have "items_count (chunk_acc (chunks ?out ! 0)) = 3"
    by (simp only: items)
  moreover from counted_fields [THEN spec, of "''Kind''"]
  have "count_of (field_success_counts (chunk_acc (chunks ?out ! 0))) ''Kind'' = 3"
    by (simp only: kind hit)
  moreover from notes_kept noted have "length (chunk_missing (chunks ?out ! 0)) = 3"
    by (auto simp: listed split: option.splits)
  moreover from next_file
  have "\<exists>more. (''2021_chunk_2.json'', Records (?p # more)) \<in> set (files ?out)"
    unfolding two by simp
  ultimately show ?thesis using car ne full n by blast
qed

end
